theory Spec2Isabelle
  imports Complex_Main
begin

section \<open>JavaScript values\<close>

text \<open>
  The only exception the modelled code can raise is a \<open>TypeError\<close>: reading a property
  of \<open>undefined\<close>, calling something that is not a function, or \<open>new\<close> on something
  that is not a constructor.
\<close>

datatype error = TypeError

text \<open>
  A plot coordinate that may be missing. \<open>Some r\<close> is the number \<open>r\<close>, \<open>None\<close>
  stands for \<open>undefined\<close> and for the \<open>NaN\<close> that a subtraction makes of it.
  Coordinates are idealised as reals: what is proved about the drag handlers depends
  on which value is compared, assigned and passed on, not on how a difference of
  coordinates is rounded. The masses, whose arithmetic decides what \<open>getMass\<close>
  returns, are binary64 numbers (next section).
\<close>

type_synonym jsnum = "real option"

definition js_sub :: "jsnum \<Rightarrow> jsnum \<Rightarrow> jsnum" where
  "js_sub a b = (case a of None \<Rightarrow> None | Some x \<Rightarrow> (case b of None \<Rightarrow> None | Some y \<Rightarrow> Some (x - y)))"

text \<open>Truthiness of a string that may be undefined: \<open>undefined\<close> and \<open>''\<close> are falsy.\<close>

definition truthy_str :: "string option \<Rightarrow> bool" where
  "truthy_str s = (case s of None \<Rightarrow> False | Some t \<Rightarrow> t \<noteq> [])"

section \<open>Binary64 numbers\<close>

text \<open>
  A JavaScript number is an IEEE 754 binary64 value: \<open>Fin r\<close> is the finite value
  \<open>r\<close> (\<open>Fin 0\<close> is \<open>+0\<close>), \<open>NegZero\<close> is \<open>-0\<close>, and there are the two
  infinities and \<open>NaN\<close>.
\<close>

datatype double = Fin real | NegZero | PosInf | NegInf | NaN

text \<open>
  Rounding to nearest, ties to even. \<open>rne\<close> rounds a real to an integer.
  \<open>ulp_exponent x\<close> is the exponent of the unit in the last place at \<open>x\<close>: 52
  binary digits below the leading one, and never below \<open>2^-1074\<close>, the spacing of the
  subnormal numbers. \<open>round_finite\<close> rounds to a multiple of that unit. An exact result
  of magnitude at least \<open>2^1024 - 2^970\<close> rounds to an infinity; a negative result that
  rounds to zero gives \<open>-0\<close>.
\<close>

definition rne :: "real \<Rightarrow> int" where
  "rne y =
     (let f = \<lfloor>y\<rfloor>; d = y - of_int f
      in if d < 1 / 2 then f else if 1 / 2 < d then f + 1 else if even f then f else f + 1)"

definition ulp_exponent :: "real \<Rightarrow> int" where
  "ulp_exponent x = max \<lfloor>log 2 \<bar>x\<bar>\<rfloor> (- 1022) - 52"

definition round_finite :: "real \<Rightarrow> real" where
  "round_finite x =
     (if x = 0 then 0
      else of_int (rne (x / 2 powr of_int (ulp_exponent x))) * 2 powr of_int (ulp_exponent x))"

definition overflow_threshold :: real where
  "overflow_threshold = 2 ^ 1024 - 2 ^ 970"

definition round64 :: "real \<Rightarrow> double" where
  "round64 x =
     (if overflow_threshold \<le> \<bar>x\<bar> then (if 0 < x then PosInf else NegInf)
      else if x < 0 \<and> round_finite x = 0 then NegZero
      else Fin (round_finite x))"

text \<open>\<open>representable x\<close>: the real \<open>x\<close> is a finite binary64 value.\<close>

definition representable :: "real \<Rightarrow> bool" where
  "representable x = (round64 x = Fin x)"

text \<open>The sign bit, and the tests for zeros and infinities.\<close>

fun negative :: "double \<Rightarrow> bool" where
  "negative (Fin x) = (x < 0)"
| "negative NegZero = True"
| "negative NegInf = True"
| "negative PosInf = False"
| "negative NaN = False"

fun is_zero :: "double \<Rightarrow> bool" where
  "is_zero (Fin x) = (x = 0)"
| "is_zero NegZero = True"
| "is_zero d = False"

fun is_infinite :: "double \<Rightarrow> bool" where
  "is_infinite PosInf = True"
| "is_infinite NegInf = True"
| "is_infinite d = False"

definition signed_zero :: "bool \<Rightarrow> double" where
  "signed_zero neg = (if neg then NegZero else Fin 0)"

definition signed_infinity :: "bool \<Rightarrow> double" where
  "signed_infinity neg = (if neg then NegInf else PosInf)"

text \<open>
  Negation, addition, subtraction (\<open>a - b\<close> is \<open>a + (-b)\<close>) and division, with
  the special cases of IEEE 754: \<open>NaN\<close> propagates, \<open>\<infinity> - \<infinity>\<close>, \<open>0/0\<close> and
  \<open>\<infinity>/\<infinity>\<close> are \<open>NaN\<close>, an exact zero sum is \<open>+0\<close> unless both operands are
  \<open>-0\<close>, and a quotient that is a zero or an infinity has the sign of the operands
  combined.
\<close>

fun double_neg :: "double \<Rightarrow> double" where
  "double_neg (Fin x) = (if x = 0 then NegZero else Fin (- x))"
| "double_neg NegZero = Fin 0"
| "double_neg PosInf = NegInf"
| "double_neg NegInf = PosInf"
| "double_neg NaN = NaN"

fun double_add :: "double \<Rightarrow> double \<Rightarrow> double" where
  "double_add NaN b = NaN"
| "double_add a NaN = NaN"
| "double_add PosInf NegInf = NaN"
| "double_add NegInf PosInf = NaN"
| "double_add PosInf b = PosInf"
| "double_add a PosInf = PosInf"
| "double_add NegInf b = NegInf"
| "double_add a NegInf = NegInf"
| "double_add NegZero NegZero = NegZero"
| "double_add NegZero (Fin y) = Fin y"
| "double_add (Fin x) NegZero = Fin x"
| "double_add (Fin x) (Fin y) = round64 (x + y)"

definition double_sub :: "double \<Rightarrow> double \<Rightarrow> double" where
  "double_sub a b = double_add a (double_neg b)"

definition double_div :: "double \<Rightarrow> double \<Rightarrow> double" where
  "double_div a b =
     (if a = NaN \<or> b = NaN then NaN
      else if is_infinite a then
        (if is_infinite b then NaN else signed_infinity (negative a \<noteq> negative b))
      else if is_infinite b then signed_zero (negative a \<noteq> negative b)
      else if is_zero b then
        (if is_zero a then NaN else signed_infinity (negative a \<noteq> negative b))
      else if is_zero a then signed_zero (negative a \<noteq> negative b)
      else (case a of Fin x \<Rightarrow> (case b of Fin y \<Rightarrow> round64 (x / y) | _ \<Rightarrow> NaN) | _ \<Rightarrow> NaN))"

text \<open>A property that holds a number or is \<open>undefined\<close>, read as a number.\<close>

definition to_number :: "double option \<Rightarrow> double" where
  "to_number v = (case v of None \<Rightarrow> NaN | Some d \<Rightarrow> d)"

section \<open>Points: links and nodes\<close>

text \<open>
  \<open>onMouseDown\<close> stores in \<open>point.fixedPosition\<close> the pointer's chart
  coordinates and the point's plot coordinates at the start of the gesture.
\<close>

record fixedPosition =
  fixed_chartX :: real
  fixed_chartY :: real
  fixed_plotX :: jsnum
  fixed_plotY :: jsnum

text \<open>
  Links (the series' data points) and nodes are objects of the same point class; a node
  has \<open>isNode\<close> set and carries \<open>linksFrom\<close> and \<open>linksTo\<close>. Objects are
  shared by reference, so a reference to a node is its index in the series'
  \<open>nodes\<close> array and a reference to a link is its index in \<open>points\<close>.
  The fields \<open>id_key\<close>, \<open>from_key\<close> and \<open>to_key\<close> are the source's \<open>id\<close>,
  \<open>from\<close> and \<open>to\<close>; \<open>options_color\<close> and \<open>options_colorIndex\<close> are
  \<open>options.color\<close> and \<open>options.colorIndex\<close>. On a link \<open>linksFrom\<close> and
  \<open>linksTo\<close> do not exist; the record holds \<open>[]\<close> there, and the code never
  reads them on a point whose \<open>isNode\<close> is not set.
\<close>

record point =
  isNode :: bool
  id_key :: "string option"
  name :: "string option"
  from_key :: "string option"
  to_key :: "string option"
  fromNode :: "nat option"
  toNode :: "nat option"
  linksFrom :: "nat list"
  linksTo :: "nat list"
  mass :: "double option"
  plotX :: jsnum
  plotY :: jsnum
  fixedPosition :: "fixedPosition option"
  inDragMode :: bool
  color :: "string option"
  colorIndex :: "nat option"
  options_color :: "string option"
  options_colorIndex :: "nat option"

subsection \<open>getDegree\<close>

definition getDegree :: "point \<Rightarrow> nat" where
  "getDegree p =
     (let deg = (if isNode p then length (linksFrom p) + length (linksTo p) else 0)
      in if deg = 0 then 1 else deg)"

subsection \<open>getMass\<close>

text \<open>The object \<open>{fromNode: ..., toNode: ...}\<close> that \<open>getMass\<close> returns.\<close>

record mass_share =
  share_fromNode :: double
  share_toNode :: double

text \<open>
  Following a node reference. A reference always points to a node of the array; an
  index outside it is treated as \<open>undefined\<close>.
\<close>

definition node_at :: "point list \<Rightarrow> nat option \<Rightarrow> point option" where
  "node_at ns r = (case r of None \<Rightarrow> None | Some i \<Rightarrow> if i < length ns then Some (ns ! i) else None)"

definition getMass :: "point list \<Rightarrow> point \<Rightarrow> error + mass_share" where
  "getMass ns p =
     (case node_at ns (fromNode p) of
        None \<Rightarrow> Inl TypeError
      | Some f \<Rightarrow>
          (case node_at ns (toNode p) of
             None \<Rightarrow> Inl TypeError
           | Some t \<Rightarrow>
               (let m1 = to_number (mass f); m2 = to_number (mass t); sum = double_add m1 m2
                in Inr \<lparr> share_fromNode = double_sub (Fin 1) (double_div m1 sum),
                         share_toNode = double_sub (Fin 1) (double_div m2 sum) \<rparr>)))"

section \<open>Plain objects used as dictionaries\<close>

text \<open>
  \<open>nodeLookup\<close> and \<open>chart.graphLayoutsStorage\<close> are object literals \<open>{}\<close>
  indexed by a string. Their own properties are kept as an association list in
  insertion order (the order in which \<open>H.objectEach\<close> visits them). Reading a key
  that is not an own property falls through to \<open>Object.prototype\<close>: for the names
  below the read yields an inherited member (a function, or the prototype object for
  \<open>__proto__\<close>), which is truthy and has none of the properties of a node or of a
  layout; for every other key it yields \<open>undefined\<close>.
\<close>

datatype 'a property = Own 'a | Inherited | Undefined

definition object_prototype_keys :: "string list" where
  "object_prototype_keys =
     [''constructor'', ''hasOwnProperty'', ''isPrototypeOf'', ''propertyIsEnumerable'',
      ''toLocaleString'', ''toString'', ''valueOf'', ''__proto__'',
      ''__defineGetter__'', ''__defineSetter__'', ''__lookupGetter__'', ''__lookupSetter__'']"

definition js_get :: "(string \<times> 'a) list \<Rightarrow> string \<Rightarrow> 'a property" where
  "js_get obj k =
     (case map_of obj k of
        Some v \<Rightarrow> Own v
      | None \<Rightarrow> if k \<in> set object_prototype_keys then Inherited else Undefined)"

section \<open>Series and chart\<close>

text \<open>An entry of \<open>options.nodes\<close>; the modelled code reads its \<open>id\<close> only.\<close>

record nodeOptions =
  node_id :: string

text \<open>
  \<open>options.layoutAlgorithm\<close>: \<open>layout_type\<close> is its \<open>type\<close>. The other tuning
  parameters are read by the layout only.
\<close>

record layoutAlgorithm =
  layout_type :: string
  option_enableSimulation :: bool

text \<open>
  The series. \<open>nodes\<close> is \<open>None\<close> until the first \<open>generatePoints\<close>;
  \<open>points\<close> are the link points that \<open>Series.prototype.generatePoints\<close> built
  from the data; \<open>layout\<close> is a reference to a layout object (its address), unset
  until \<open>deferLayout\<close> registers the series. \<open>index\<close> names the series where it
  is passed to a layout.
\<close>

record series =
  index :: nat
  visible :: bool
  nodes :: "point list option"
  points :: "point list"
  colorCounter :: nat
  layout :: "nat option"
  options_nodes :: "nodeOptions list option"
  options_layoutAlgorithm :: layoutAlgorithm
  options_fixedDraggable :: bool

text \<open>
  The chart: \<open>graphLayoutsStorage\<close> is \<open>None\<close> until the first registration;
  \<open>forExport\<close> is \<open>options.chart.forExport\<close>.
\<close>

record chart =
  styledMode :: bool
  graphLayoutsStorage :: "(string \<times> nat) list option"
  plotWidth :: real
  plotHeight :: real
  forExport :: "bool option"

section \<open>Layout objects\<close>

text \<open>
  The layout classes (\<open>H.layouts\<close>, layouts.js) are not part of the module. A layout
  object is known by its address; the heap records, per address, the type and the
  options it was constructed with. A method call on a layout is recorded as an event
  (address, call): every function below returns the calls it makes, in order.
  \<open>AddSeries i\<close>, \<open>AddNodes i\<close> and \<open>AddLinks i\<close> pass series \<open>i\<close>, its
  \<open>nodes\<close> and its \<open>points\<close>.
\<close>

record layout_instance =
  constructed_type :: string
  constructed_options :: layoutAlgorithm

datatype layout_call =
    SetArea real real real real
  | AddSeries nat
  | AddNodes nat
  | AddLinks nat
  | Run
  | Stop
  | SetMaxIterations nat
  | SetInitialRendering bool
  | ResetSimulation

type_synonym trace = "(nat \<times> layout_call) list"

text \<open>
  What the drag handlers read of a layout: whether \<open>layout.simulation\<close> is truthy
  (a simulation is running) and \<open>layout.enableSimulation\<close>.
\<close>

record layout_view =
  simulation :: bool
  enableSimulation :: bool

section \<open>generatePoints\<close>

text \<open>A point with every property undefined.\<close>

definition empty_point :: point where
  "empty_point =
     \<lparr> isNode = False, id_key = None, name = None, from_key = None, to_key = None,
       fromNode = None, toNode = None, linksFrom = [], linksTo = [],
       mass = None, plotX = None, plotY = None, fixedPosition = None, inDragMode = False,
       color = None, colorIndex = None, options_color = None, options_colorIndex = None \<rparr>"

text \<open>
  Modelled from the spec: \<open>createNode\<close> (\<open>H.NodesMixin.createNode\<close>, mixins/nodes.js)
  is not part of the module. The spec's graph model: ``Adding a node with an existing
  key is a no-op returning the existing node (idempotent)''; a node is ``created when
  first referenced by a link endpoint or explicit node list'' and then belongs to the
  graph's node collection. A new node has the key as its id, no incident links, and no
  position or mass yet (the layout assigns them).
\<close>

fun findById :: "point list \<Rightarrow> string \<Rightarrow> nat option" where
  "findById [] k = None"
| "findById (n # ns) k = (if id_key n = Some k then Some 0 else map_option Suc (findById ns k))"

definition new_node :: "string \<Rightarrow> point" where
  "new_node k = empty_point \<lparr> isNode := True, id_key := Some k \<rparr>"

definition createNode :: "point list \<Rightarrow> string \<Rightarrow> nat \<times> point list" where
  "createNode ns k =
     (case findById ns k of
        Some n \<Rightarrow> (n, ns)
      | None \<Rightarrow> (length ns, ns @ [new_node k]))"

text \<open>
  The statement \<open>if (!nodeLookup[k]) { nodeLookup[k] = this.createNode(k); }\<close>, which
  the source writes three times. Only \<open>undefined\<close> is falsy here: a node and an
  inherited member are truthy.
\<close>

definition ensureNode :: "point list \<Rightarrow> (string \<times> nat) list \<Rightarrow> string \<Rightarrow> point list \<times> (string \<times> nat) list" where
  "ensureNode ns nodeLookup k =
     (case js_get nodeLookup k of
        Undefined \<Rightarrow> (let (n, ns') = createNode ns k in (ns', nodeLookup @ [(k, n)]))
      | _ \<Rightarrow> (ns, nodeLookup))"

text \<open>
  The state of the loops of \<open>generatePoints\<close>: the nodes, the points and
  \<open>nodeLookup\<close>.
\<close>

type_synonym gp_state = "point list \<times> point list \<times> (string \<times> nat) list"

text \<open>
  The block \<open>if (defined(point.from)) { ... }\<close> for the point at index \<open>i\<close>.
  \<open>nodeLookup[point.from].linksFrom.push(point)\<close> raises a \<open>TypeError\<close> when the
  read yields an inherited member, which has no \<open>linksFrom\<close>.
\<close>

definition linkFrom :: "bool \<Rightarrow> nat \<Rightarrow> gp_state \<Rightarrow> error + gp_state" where
  "linkFrom styled i st =
     (case st of (ns, ps, nodeLookup) \<Rightarrow>
        (case from_key (ps ! i) of
           None \<Rightarrow> Inr st
         | Some k \<Rightarrow>
             (let (ns1, nodeLookup1) = ensureNode ns nodeLookup k
              in case js_get nodeLookup1 k of
                   Own n \<Rightarrow>
                     (let ns2 = ns1[n := (ns1 ! n) \<lparr> linksFrom := linksFrom (ns1 ! n) @ [i] \<rparr>];
                          p1 = (ps ! i) \<lparr> fromNode := Some n \<rparr>;
                          p2 = (if styled
                                then p1 \<lparr> colorIndex :=
                                       (case options_colorIndex p1 of
                                          Some ci \<Rightarrow> Some ci
                                        | None \<Rightarrow> colorIndex (ns2 ! n)) \<rparr>
                                else p1 \<lparr> color :=
                                       (if truthy_str (options_color p1) then options_color p1
                                        else color (ns2 ! n)) \<rparr>)
                      in Inr (ns2, ps[i := p2], nodeLookup1))
                 | _ \<Rightarrow> Inl TypeError)))"

text \<open>The block \<open>if (defined(point.to)) { ... }\<close>.\<close>

definition linkTo :: "nat \<Rightarrow> gp_state \<Rightarrow> error + gp_state" where
  "linkTo i st =
     (case st of (ns, ps, nodeLookup) \<Rightarrow>
        (case to_key (ps ! i) of
           None \<Rightarrow> Inr st
         | Some k \<Rightarrow>
             (let (ns1, nodeLookup1) = ensureNode ns nodeLookup k
              in case js_get nodeLookup1 k of
                   Own n \<Rightarrow>
                     Inr (ns1[n := (ns1 ! n) \<lparr> linksTo := linksTo (ns1 ! n) @ [i] \<rparr>],
                          ps[i := (ps ! i) \<lparr> toNode := Some n \<rparr>],
                          nodeLookup1)
                 | _ \<Rightarrow> Inl TypeError)))"

text \<open>The callback of \<open>this.points.forEach\<close>, for the point at index \<open>i\<close>.\<close>

definition linkPoint :: "bool \<Rightarrow> nat \<Rightarrow> gp_state \<Rightarrow> error + gp_state" where
  "linkPoint styled i st =
     (case linkFrom styled i st of
        Inl e \<Rightarrow> Inl e
      | Inr st1 \<Rightarrow>
          (case linkTo i st1 of
             Inl e \<Rightarrow> Inl e
           | Inr (ns, ps, nodeLookup) \<Rightarrow>
               Inr (ns,
                    ps[i := (ps ! i) \<lparr> name :=
                            (if truthy_str (name (ps ! i)) then name (ps ! i) else id_key (ps ! i)) \<rparr>],
                    nodeLookup)))"

text \<open>\<open>forEach\<close> with a callback that may raise: the first error ends the loop.\<close>

fun forEach :: "('a \<Rightarrow> 's \<Rightarrow> error + 's) \<Rightarrow> 'a list \<Rightarrow> 's \<Rightarrow> error + 's" where
  "forEach f [] st = Inr st"
| "forEach f (x # xs) st = (case f x st of Inl e \<Rightarrow> Inl e | Inr st' \<Rightarrow> forEach f xs st')"

text \<open>The callback of \<open>this.options.nodes.forEach\<close>.\<close>

definition declareNode :: "nodeOptions \<Rightarrow> point list \<times> (string \<times> nat) list \<Rightarrow> point list \<times> (string \<times> nat) list" where
  "declareNode nodeOpts st = (case st of (ns, nodeLookup) \<Rightarrow> ensureNode ns nodeLookup (node_id nodeOpts))"

text \<open>
  The body of \<open>generatePoints\<close> after \<open>Series.prototype.generatePoints\<close> has built
  \<open>this.points\<close>, up to the end of the two loops; it returns the nodes, the points
  and \<open>nodeLookup\<close>.
\<close>

definition generatePoints_loops :: "chart \<Rightarrow> series \<Rightarrow> error + gp_state" where
  "generatePoints_loops c s =
     (let ns0 = (case nodes s of None \<Rightarrow> [] | Some ns \<Rightarrow> ns);
          ns1 = map (\<lambda>node. node \<lparr> linksFrom := [], linksTo := [] \<rparr>) ns0
      in case forEach (linkPoint (styledMode c)) [0 ..< length (points s)] (ns1, points s, []) of
           Inl e \<Rightarrow> Inl e
         | Inr (ns2, ps2, nodeLookup2) \<Rightarrow>
             (case options_nodes s of
                None \<Rightarrow> Inr (ns2, ps2, nodeLookup2)
              | Some nodeOpts \<Rightarrow>
                  (let (ns3, nodeLookup3) = fold declareNode nodeOpts (ns2, nodeLookup2)
                   in Inr (ns3, ps2, nodeLookup3))))"

definition generatePoints :: "chart \<Rightarrow> series \<Rightarrow> error + series" where
  "generatePoints c s =
     (case generatePoints_loops c s of
        Inl e \<Rightarrow> Inl e
      | Inr (ns, ps, nodeLookup) \<Rightarrow> Inr (s \<lparr> nodes := Some ns, points := ps, colorCounter := 0 \<rparr>))"

section \<open>deferLayout\<close>

text \<open>
  \<open>H_layouts\<close> lists the type names registered in \<open>H.layouts\<close>. A type that is
  not registered ends in a \<open>TypeError\<close>: at \<open>new H.layouts[type](...)\<close> when the
  storage has nothing under the name, at \<open>layout.setArea\<close> when the read of the
  storage yields a member inherited from \<open>Object.prototype\<close>. A new layout object
  takes the next free address of the heap.
\<close>

definition deferLayout ::
  "string list \<Rightarrow> layout_instance list \<Rightarrow> chart \<Rightarrow> series
     \<Rightarrow> error + (series \<times> chart \<times> layout_instance list \<times> trace)" where
  "deferLayout H_layouts heap c s =
     (let layoutOptions = options_layoutAlgorithm s
      in if \<not> visible s then Inr (s, c, heap, [])
         else
           (let graphLayoutsStorage0 = (case graphLayoutsStorage c of None \<Rightarrow> [] | Some st \<Rightarrow> st)
            in case js_get graphLayoutsStorage0 (layout_type layoutOptions) of
                 Inherited \<Rightarrow> Inl TypeError
               | Own l \<Rightarrow>
                   Inr (s \<lparr> layout := Some l \<rparr>,
                        c \<lparr> graphLayoutsStorage := Some graphLayoutsStorage0 \<rparr>,
                        heap,
                        [(l, SetArea 0 0 (plotWidth c) (plotHeight c)),
                         (l, AddSeries (index s)), (l, AddNodes (index s)), (l, AddLinks (index s))])
               | Undefined \<Rightarrow>
                   if layout_type layoutOptions \<notin> set H_layouts then Inl TypeError
                   else
                     (let layoutOptions1 = layoutOptions \<lparr> option_enableSimulation :=
                            (case forExport c of
                               None \<Rightarrow> option_enableSimulation layoutOptions
                             | Some e \<Rightarrow> \<not> e) \<rparr>;
                          l = length heap
                      in Inr (s \<lparr> options_layoutAlgorithm := layoutOptions1, layout := Some l \<rparr>,
                              c \<lparr> graphLayoutsStorage :=
                                    Some (graphLayoutsStorage0 @ [(layout_type layoutOptions, l)]) \<rparr>,
                              heap @ [\<lparr> constructed_type = layout_type layoutOptions,
                                        constructed_options = layoutOptions1 \<rparr>],
                              [(l, SetArea 0 0 (plotWidth c) (plotHeight c)),
                               (l, AddSeries (index s)), (l, AddNodes (index s)),
                               (l, AddLinks (index s))]))))"

text \<open>
  The series of a chart are registered one after the other (\<open>translate\<close> of each
  series calls \<open>deferLayout\<close>), and the plot size of the chart may differ from one
  registration to the next: a registration is the plot width and height at that time
  and the series. \<open>deferLayouts\<close> returns, for each registration, the series as it is
  left and the calls made. \<open>registered r res l\<close>: the registration \<open>r\<close> left the
  series with layout \<open>l\<close> and passed it the area of that time, the series, its nodes
  and its links.
\<close>

fun deferLayouts ::
  "string list \<Rightarrow> layout_instance list \<Rightarrow> chart \<Rightarrow> (real \<times> real \<times> series) list
     \<Rightarrow> error + ((series \<times> trace) list \<times> chart \<times> layout_instance list)" where
  "deferLayouts H_layouts heap c [] = Inr ([], c, heap)"
| "deferLayouts H_layouts heap c ((w, h, s) # rs) =
     (case deferLayout H_layouts heap (c \<lparr> plotWidth := w, plotHeight := h \<rparr>) s of
        Inl e \<Rightarrow> Inl e
      | Inr (s1, c1, heap1, t1) \<Rightarrow>
          (case deferLayouts H_layouts heap1 c1 rs of
             Inl e \<Rightarrow> Inl e
           | Inr (res, c2, heap2) \<Rightarrow> Inr ((s1, t1) # res, c2, heap2)))"

definition registered :: "real \<times> real \<times> series \<Rightarrow> series \<times> trace \<Rightarrow> nat \<Rightarrow> bool" where
  "registered r res l =
     (case r of (w, h, s) \<Rightarrow>
        layout (fst res) = Some l
        \<and> snd res = [(l, SetArea 0 0 w h), (l, AddSeries (index s)), (l, AddNodes (index s)),
                      (l, AddLinks (index s))])"

section \<open>Dragging\<close>

text \<open>The pointer event after \<open>chart.pointer.normalize\<close>.\<close>

record normalizedEvent =
  chartX :: real
  chartY :: real

text \<open>
  A handler mutates the point and calls the layout; it returns the point, the calls,
  and the error it raised, if any (the mutations made before a \<open>TypeError\<close> stay).
  The handlers are methods of the series; \<open>L l\<close> is the state of the layout at address
  \<open>l\<close> when the handler runs.
\<close>

type_synonym handled = "point \<times> trace \<times> error option"

definition onMouseDown :: "point \<Rightarrow> normalizedEvent \<Rightarrow> point" where
  "onMouseDown p e =
     p \<lparr> fixedPosition := Some \<lparr> fixed_chartX = chartX e, fixed_chartY = chartY e,
                                 fixed_plotX = plotX p, fixed_plotY = plotY p \<rparr>,
         inDragMode := True \<rparr>"

text \<open>
  \<open>isInsidePlot\<close> is \<open>chart.isInsidePlot\<close>, which is not part of the module.
  \<open>series.redrawHalo()\<close> is called without a point and does nothing.
  \<open>onMouseMove\<close> assigns the position before its first call to the layout, so its
  calls see the point that it returns.
\<close>

definition onMouseMove ::
  "(jsnum \<Rightarrow> jsnum \<Rightarrow> bool) \<Rightarrow> (nat \<Rightarrow> layout_view) \<Rightarrow> series \<Rightarrow> point \<Rightarrow> normalizedEvent \<Rightarrow> handled" where
  "onMouseMove isInsidePlot L s p e =
     (case fixedPosition p of
        None \<Rightarrow> (p, [], None)
      | Some fp \<Rightarrow>
          if \<not> inDragMode p then (p, [], None)
          else
            (let diffX = fixed_chartX fp - chartX e;
                 diffY = fixed_chartY fp - chartY e
             in if \<bar>diffX\<bar> > 5 \<or> \<bar>diffY\<bar> > 5 then
                  (let newPlotX = js_sub (fixed_plotX fp) (Some diffX);
                       newPlotY = js_sub (fixed_plotY fp) (Some diffY)
                   in if isInsidePlot newPlotX newPlotY then
                        (let p1 = p \<lparr> plotX := newPlotX, plotY := newPlotY \<rparr>
                         in case layout s of
                              None \<Rightarrow> (p1, [], Some TypeError)
                            | Some l \<Rightarrow>
                                if \<not> simulation (L l) then
                                  (p1,
                                   (if \<not> enableSimulation (L l) then [(l, SetMaxIterations 1)] else [])
                                     @ [(l, SetInitialRendering False), (l, Run),
                                        (l, SetInitialRendering True)],
                                   None)
                                else (p1, [(l, ResetSimulation)], None))
                      else (p, [], None))
                else (p, [], None)))"

text \<open>
  \<open>onMouseUp\<close> calls the layout before it writes to the point, so its calls are
  recorded together with the point as it is when the call is made.
\<close>

type_synonym released = "point \<times> (nat \<times> layout_call \<times> point) list \<times> error option"

definition onMouseUp :: "series \<Rightarrow> point \<Rightarrow> released" where
  "onMouseUp s p =
     (case fixedPosition p of
        None \<Rightarrow> (p, [], None)
      | Some fp \<Rightarrow>
          (case layout s of
             None \<Rightarrow> (p, [], Some TypeError)
           | Some l \<Rightarrow>
               (let calls = [(l, Run, p)];
                    p1 = p \<lparr> inDragMode := False \<rparr>;
                    p2 = (if \<not> options_fixedDraggable s then p1 \<lparr> fixedPosition := None \<rparr> else p1)
                in (p2, calls, None))))"

text \<open>
  The \<open>mousemove\<close> listener that the \<open>mousedown\<close> listener binds calls
  \<open>onMouseMove\<close> on the same point for every event of the gesture. Each event comes
  with the state of the layouts at that time.
\<close>

fun mouseMoves ::
  "(jsnum \<Rightarrow> jsnum \<Rightarrow> bool) \<Rightarrow> series \<Rightarrow> point \<Rightarrow> (normalizedEvent \<times> (nat \<Rightarrow> layout_view)) list \<Rightarrow> point" where
  "mouseMoves isInsidePlot s p [] = p"
| "mouseMoves isInsidePlot s p ((e, L) # es) =
     mouseMoves isInsidePlot s (fst (onMouseMove isInsidePlot L s p e)) es"

section \<open>Event handlers of the series and the chart\<close>

text \<open>The handler of the series' \<open>updatedData\<close> event.\<close>

definition updatedData :: "series \<Rightarrow> trace" where
  "updatedData s = (case layout s of None \<Rightarrow> [] | Some l \<Rightarrow> [(l, Stop)])"

text \<open>The handlers of the chart's \<open>predraw\<close> and \<open>render\<close> events.\<close>

definition predraw :: "chart \<Rightarrow> trace" where
  "predraw c =
     (case graphLayoutsStorage c of
        None \<Rightarrow> []
      | Some st \<Rightarrow> map (\<lambda>(k, l). (l, Stop)) st)"

definition render :: "chart \<Rightarrow> trace" where
  "render c =
     (case graphLayoutsStorage c of
        None \<Rightarrow> []
      | Some st \<Rightarrow> map (\<lambda>(k, l). (l, Run)) st)"

text \<open>
  \<open>translate\<close>: \<open>generatePoints\<close>, then \<open>deferLayout\<close>. What follows in the source
  marks the nodes and links for drawing and touches nothing modelled here.
\<close>

definition translate ::
  "string list \<Rightarrow> layout_instance list \<Rightarrow> chart \<Rightarrow> series
     \<Rightarrow> error + (series \<times> chart \<times> layout_instance list \<times> trace)" where
  "translate H_layouts heap c s =
     (case generatePoints c s of
        Inl e \<Rightarrow> Inl e
      | Inr s1 \<Rightarrow> deferLayout H_layouts heap c s1)"

fun translate_all ::
  "string list \<Rightarrow> layout_instance list \<Rightarrow> chart \<Rightarrow> series list
     \<Rightarrow> error + (series list \<times> chart \<times> layout_instance list \<times> trace)" where
  "translate_all H_layouts heap c [] = Inr ([], c, heap, [])"
| "translate_all H_layouts heap c (s # ss) =
     (case translate H_layouts heap c s of
        Inl e \<Rightarrow> Inl e
      | Inr (s1, c1, heap1, t1) \<Rightarrow>
          (case translate_all H_layouts heap1 c1 ss of
             Inl e \<Rightarrow> Inl e
           | Inr (ss2, c2, heap2, t2) \<Rightarrow> Inr (s1 # ss2, c2, heap2, t1 @ t2)))"

text \<open>
  Modelled from the spec: the chart's redraw (\<open>Chart.prototype.redraw\<close>,
  parts/Chart.js) is not part of the module. The spec has the layouts ``reset when the
  host signals a full redraw'' and ``reset always precedes the next run'': the host
  fires \<open>predraw\<close> first, translates its series, and fires \<open>render\<close> last.
\<close>

definition redraw ::
  "string list \<Rightarrow> layout_instance list \<Rightarrow> chart \<Rightarrow> series list
     \<Rightarrow> error + (series list \<times> chart \<times> layout_instance list \<times> trace)" where
  "redraw H_layouts heap c ss =
     (let t0 = predraw c
      in case translate_all H_layouts heap c ss of
           Inl e \<Rightarrow> Inl e
         | Inr (ss1, c1, heap1, t1) \<Rightarrow> Inr (ss1, c1, heap1, t0 @ t1 @ render c1))"

section \<open>Sample inputs\<close>

text \<open>
  A link point as \<open>Series.prototype.generatePoints\<close> builds it from the data item
  \<open>{from: a, to: b}\<close>, a networkgraph series with the default layout options, and a
  chart of 800 by 600 pixels before its first registration.
\<close>

definition link :: "string \<Rightarrow> string \<Rightarrow> point" where
  "link a b = empty_point \<lparr> from_key := Some a, to_key := Some b \<rparr>"

definition sample_series :: "nat \<Rightarrow> point list \<Rightarrow> series" where
  "sample_series i ps =
     \<lparr> index = i, visible = True, nodes = None, points = ps, colorCounter = 0, layout = None,
       options_nodes = None,
       options_layoutAlgorithm =
         \<lparr> layout_type = ''reingold-fruchterman'', option_enableSimulation = False \<rparr>,
       options_fixedDraggable = False \<rparr>"

definition sample_chart :: chart where
  "sample_chart =
     \<lparr> styledMode = False, graphLayoutsStorage = None, plotWidth = 800, plotHeight = 600,
       forExport = None \<rparr>"

text \<open>
  A drag: node \<open>A\<close> at plot position (100, 100), grabbed with the pointer at chart
  position (110, 110). \<open>inside800x600\<close> is the test \<open>chart.isInsidePlot\<close> makes for
  a plot of 800 by 600 pixels; \<open>still\<close> is a layout with no simulation running and
  live simulation disabled.
\<close>

definition dragged :: point where
  "dragged = onMouseDown (new_node ''A'' \<lparr> plotX := Some 100, plotY := Some 100 \<rparr>)
                         \<lparr> chartX = 110, chartY = 110 \<rparr>"

definition inside800x600 :: "jsnum \<Rightarrow> jsnum \<Rightarrow> bool" where
  "inside800x600 x y =
     (case x of
        None \<Rightarrow> False
      | Some a \<Rightarrow>
          (case y of
             None \<Rightarrow> False
           | Some b \<Rightarrow> 0 \<le> a \<and> a \<le> 800 \<and> 0 \<le> b \<and> b \<le> 600))"

definition still :: "nat \<Rightarrow> layout_view" where
  "still l = \<lparr> simulation = False, enableSimulation = False \<rparr>"

text \<open>
  The layout object that the first registration of a sample series constructs, and a
  second layout type, \<open>circular\<close>, for a chart whose series ask for different
  algorithms.
\<close>

definition fruchterman :: layout_instance where
  "fruchterman =
     \<lparr> constructed_type = ''reingold-fruchterman'',
       constructed_options =
         \<lparr> layout_type = ''reingold-fruchterman'', option_enableSimulation = False \<rparr> \<rparr>"

definition circular_series :: "nat \<Rightarrow> point list \<Rightarrow> series" where
  "circular_series i ps =
     sample_series i ps
       \<lparr> options_layoutAlgorithm := \<lparr> layout_type = ''circular'', option_enableSimulation = False \<rparr> \<rparr>"

definition circular :: layout_instance where
  "circular =
     \<lparr> constructed_type = ''circular'',
       constructed_options = \<lparr> layout_type = ''circular'', option_enableSimulation = False \<rparr> \<rparr>"

section \<open>Invariant of the layout storage\<close>

text \<open>
  The storage of a chart holds each type once, each layout object once, and only
  addresses of the heap. It holds before the first registration and every
  registration keeps it.
\<close>

definition storage_ok :: "layout_instance list \<Rightarrow> chart \<Rightarrow> bool" where
  "storage_ok heap c =
     (case graphLayoutsStorage c of
        None \<Rightarrow> True
      | Some st \<Rightarrow> distinct (map fst st) \<and> distinct (map snd st)
                   \<and> list_all (\<lambda>(k, l). l < length heap) st)"

text \<open>The own properties of \<open>chart.graphLayoutsStorage\<close>, none while it is unset.\<close>

definition storage_list :: "chart \<Rightarrow> (string \<times> nat) list" where
  "storage_list c = (case graphLayoutsStorage c of None \<Rightarrow> [] | Some st \<Rightarrow> st)"

section \<open>Invariants of generatePoints\<close>

text \<open>
  \<open>unlinked\<close> forgets the link lists of a node, the only fields of an existing node
  that \<open>generatePoints\<close> writes. \<open>grows ns ns'\<close>: the nodes of \<open>ns\<close> are still
  there in \<open>ns'\<close>, at the same index and unchanged but for their link lists.
  \<open>lookup_ok\<close>: every entry of \<open>nodeLookup\<close> refers to an existing node whose id
  is the entry's key.
\<close>

definition unlinked :: "point \<Rightarrow> point" where
  "unlinked p = p \<lparr> linksFrom := [], linksTo := [] \<rparr>"

definition grows :: "point list \<Rightarrow> point list \<Rightarrow> bool" where
  "grows ns ns' = (length ns \<le> length ns' \<and> (\<forall>n < length ns. unlinked (ns' ! n) = unlinked (ns ! n)))"

definition lookup_ok :: "point list \<Rightarrow> (string \<times> nat) list \<Rightarrow> bool" where
  "lookup_ok ns nodeLookup = (\<forall>(k, n) \<in> set nodeLookup. n < length ns \<and> id_key (ns ! n) = Some k)"

text \<open>
  What one callback of the first loop keeps, for the point \<open>i\<close> it handles: the
  nodes grow, the lookup stays right, the other points are untouched, the keys of
  point \<open>i\<close> stay, and node ids stay distinct.
\<close>

definition step_ok :: "nat \<Rightarrow> gp_state \<Rightarrow> gp_state \<Rightarrow> bool" where
  "step_ok i st st' =
     (case st of (ns, ps, lk) \<Rightarrow> case st' of (ns', ps', lk') \<Rightarrow>
        grows ns ns' \<and> lookup_ok ns' lk' \<and> length ps' = length ps
        \<and> (\<forall>j. j \<noteq> i \<longrightarrow> ps' ! j = ps ! j)
        \<and> from_key (ps' ! i) = from_key (ps ! i) \<and> to_key (ps' ! i) = to_key (ps ! i)
        \<and> (distinct (map id_key ns) \<longrightarrow> distinct (map id_key ns')))"

text \<open>
  \<open>endpoints_ok\<close>: each defined endpoint key of the point is resolved to an existing
  node with that id. \<open>safe_point\<close>: no endpoint key of the point names a member of
  \<open>Object.prototype\<close>.
\<close>

definition endpoints_ok :: "point list \<Rightarrow> point \<Rightarrow> bool" where
  "endpoints_ok ns p =
     ((\<forall>k. from_key p = Some k \<longrightarrow>
          (\<exists>n. fromNode p = Some n \<and> n < length ns \<and> id_key (ns ! n) = Some k))
      \<and> (\<forall>k. to_key p = Some k \<longrightarrow>
          (\<exists>n. toNode p = Some n \<and> n < length ns \<and> id_key (ns ! n) = Some k)))"

definition safe_point :: "point \<Rightarrow> bool" where
  "safe_point p =
     ((\<forall>k. from_key p = Some k \<longrightarrow> k \<notin> set object_prototype_keys)
      \<and> (\<forall>k. to_key p = Some k \<longrightarrow> k \<notin> set object_prototype_keys))"

section \<open>Properties of getDegree and getMass\<close>

text \<open>
  C5. For every point, \<open>getDegree\<close> returns the number of incident links
  (\<open>linksFrom.length + linksTo.length\<close>) when the point is a node with at least one
  incident link, and 1 when that number is zero or the point is not a node; the result
  is always at least 1, so dividing by it is safe.
\<close>

theorem getDegree_floor:
  "(isNode p \<and> 0 < length (linksFrom p) + length (linksTo p)
      \<longrightarrow> getDegree p = length (linksFrom p) + length (linksTo p))
   \<and> (\<not> isNode p \<or> length (linksFrom p) + length (linksTo p) = 0 \<longrightarrow> getDegree p = 1)
   \<and> 1 \<le> getDegree p \<and> getDegree p \<noteq> 0"
  by (auto simp: getDegree_def Let_def)

theorem getDegree_floor_witness:
  "isNode (new_node ''A'' \<lparr> linksFrom := [0, 1], linksTo := [2] \<rparr>)
   \<and> getDegree (new_node ''A'' \<lparr> linksFrom := [0, 1], linksTo := [2] \<rparr>) = 3
   \<and> \<not> isNode (link ''A'' ''B'') \<and> getDegree (link ''A'' ''B'') = 1
   \<and> getDegree (new_node ''A'') = 1"
  using getDegree_floor [of "new_node ''A'' \<lparr> linksFrom := [0, 1], linksTo := [2] \<rparr>"]
        getDegree_floor [of "link ''A'' ''B''"] getDegree_floor [of "new_node ''A''"]
  by (simp add: new_node_def link_def empty_point_def)

subsection \<open>Rounding is monotone\<close>

lemma rne_of_int: "rne (of_int n) = n"
  by (simp add: rne_def)

lemma rne_range: "rne y = \<lfloor>y\<rfloor> \<or> rne y = \<lfloor>y\<rfloor> + 1"
  by (simp add: rne_def Let_def)

lemma rne_mono:
  assumes "x \<le> y"
  shows "rne x \<le> rne y"
proof (cases "\<lfloor>x\<rfloor> = \<lfloor>y\<rfloor>")
  case True
  then show ?thesis using assms by (auto simp: rne_def Let_def)
next
  case False
  then have "\<lfloor>x\<rfloor> + 1 \<le> \<lfloor>y\<rfloor>" using floor_mono [OF assms] by linarith
  moreover have "rne x \<le> \<lfloor>x\<rfloor> + 1" using rne_range [of x] by linarith
  moreover have "\<lfloor>y\<rfloor> \<le> rne y" using rne_range [of y] by linarith
  ultimately show ?thesis by linarith
qed

lemma rne_le: "y \<le> of_int n \<Longrightarrow> rne y \<le> n"
  using rne_mono [of y "of_int n"] by (simp add: rne_of_int)

lemma rne_ge: "of_int n \<le> y \<Longrightarrow> n \<le> rne y"
  using rne_mono [of "of_int n" y] by (simp add: rne_of_int)

lemma floor_log2_bounds:
  assumes "0 < x"
  shows "2 powr of_int \<lfloor>log 2 x\<rfloor> \<le> x" and "x < 2 powr (of_int \<lfloor>log 2 x\<rfloor> + 1)"
proof -
  have "of_int \<lfloor>log 2 x\<rfloor> \<le> log 2 x" by simp
  then have "2 powr of_int \<lfloor>log 2 x\<rfloor> \<le> 2 powr log 2 x" by simp
  then show "2 powr of_int \<lfloor>log 2 x\<rfloor> \<le> x" using assms by simp
  have "log 2 x < of_int \<lfloor>log 2 x\<rfloor> + 1" by linarith
  then have "2 powr log 2 x < 2 powr (of_int \<lfloor>log 2 x\<rfloor> + 1)" by simp
  then show "x < 2 powr (of_int \<lfloor>log 2 x\<rfloor> + 1)" using assms by simp
qed

lemma ulp_exponent_mono:
  assumes "0 < x" and "x \<le> y"
  shows "ulp_exponent x \<le> ulp_exponent y"
proof -
  have "log 2 x \<le> log 2 y" using assms by simp
  then have "\<lfloor>log 2 x\<rfloor> \<le> \<lfloor>log 2 y\<rfloor>" by (rule floor_mono)
  then show ?thesis using assms by (simp add: ulp_exponent_def)
qed

lemma round_finite_nonneg:
  assumes "0 \<le> x"
  shows "0 \<le> round_finite x"
proof (cases "x = 0")
  case True
  then show ?thesis by (simp add: round_finite_def)
next
  case False
  have "0 \<le> x / 2 powr of_int (ulp_exponent x)" using assms by simp
  then have "0 \<le> rne (x / 2 powr of_int (ulp_exponent x))"
    using rne_ge [of 0] by simp
  then show ?thesis using False by (simp add: round_finite_def)
qed

lemma round_finite_mono_pos:
  assumes x: "0 < x" and xy: "x \<le> y"
  shows "round_finite x \<le> round_finite y"
proof -
  define ex where "ex = ulp_exponent x"
  define ey where "ey = ulp_exponent y"
  have y: "0 < y" using x xy by simp
  have rx: "round_finite x = of_int (rne (x / 2 powr of_int ex)) * 2 powr of_int ex"
    using x by (simp add: round_finite_def ex_def)
  have ry: "round_finite y = of_int (rne (y / 2 powr of_int ey)) * 2 powr of_int ey"
    using y by (simp add: round_finite_def ey_def)
  have le: "ex \<le> ey" unfolding ex_def ey_def using x xy by (rule ulp_exponent_mono)
  show ?thesis
  proof (cases "ex = ey")
    case True
    have "x / 2 powr of_int ey \<le> y / 2 powr of_int ey"
      using xy by (simp add: divide_right_mono)
    then have "rne (x / 2 powr of_int ey) \<le> rne (y / 2 powr of_int ey)" by (rule rne_mono)
    then have "real_of_int (rne (x / 2 powr of_int ey)) * 2 powr of_int ey
               \<le> real_of_int (rne (y / 2 powr of_int ey)) * 2 powr of_int ey"
      by (simp add: mult_right_mono)
    then show ?thesis using rx ry True by simp
  next
    case False
    then have lt: "ex + 1 \<le> ey" using le by simp
    have fx: "\<lfloor>log 2 x\<rfloor> \<le> ex + 52"
      using x by (simp add: ex_def ulp_exponent_def)
    have "x < 2 powr (of_int \<lfloor>log 2 x\<rfloor> + 1)" using floor_log2_bounds(2) [OF x] .
    also have "\<dots> \<le> 2 powr (of_int ex + 53)"
      using fx by simp
    finally have xlt: "x < 2 powr (of_int ex + 53)" .
    have split_x: "(2::real) powr (of_int ex + 53) = 2 ^ 53 * 2 powr of_int ex"
      by (simp add: powr_add)
    have "x / 2 powr of_int ex \<le> of_int (2 ^ 53)"
      using xlt split_x by (simp add: divide_le_eq)
    then have "rne (x / 2 powr of_int ex) \<le> 2 ^ 53" by (rule rne_le)
    then have "real_of_int (rne (x / 2 powr of_int ex)) \<le> (2 ^ 53 :: real)"
      by (metis of_int_le_iff of_int_numeral of_int_power)
    then have "round_finite x \<le> 2 ^ 53 * 2 powr of_int ex"
      using rx by (simp add: mult_right_mono)
    then have ux: "round_finite x \<le> 2 powr (of_int ex + 53)" using split_x by simp
    have "- 1074 \<le> ex" by (simp add: ex_def ulp_exponent_def)
    then have "- 1074 < ey" using lt by simp
    then have fy: "\<lfloor>log 2 y\<rfloor> = ey + 52"
      using y by (simp add: ey_def ulp_exponent_def max_def split: if_splits)
    have "2 powr of_int (ey + 52) \<le> y" using floor_log2_bounds(1) [OF y] fy by simp
    moreover have split_y: "(2::real) powr of_int (ey + 52) = 2 ^ 52 * 2 powr of_int ey"
      by (simp add: powr_add)
    ultimately have "of_int (2 ^ 52) \<le> y / 2 powr of_int ey"
      by (simp add: le_divide_eq)
    then have "2 ^ 52 \<le> rne (y / 2 powr of_int ey)" by (rule rne_ge)
    then have "(2 ^ 52 :: real) \<le> real_of_int (rne (y / 2 powr of_int ey))"
      by (metis of_int_le_iff of_int_numeral of_int_power)
    then have "2 ^ 52 * 2 powr of_int ey \<le> round_finite y"
      using ry by (simp add: mult_right_mono)
    then have ly: "2 powr of_int (ey + 52) \<le> round_finite y" using split_y by simp
    have "(2::real) powr (of_int ex + 53) \<le> 2 powr of_int (ey + 52)"
      using lt by simp
    then show ?thesis using ux ly by linarith
  qed
qed

lemma round_finite_mono:
  assumes "0 \<le> x" and "x \<le> y"
  shows "round_finite x \<le> round_finite y"
proof (cases "x = 0")
  case True
  then show ?thesis using assms round_finite_nonneg [of y] by (simp add: round_finite_def)
next
  case False
  then show ?thesis using assms round_finite_mono_pos [of x y] by simp
qed

lemma round_finite_dyadic:
  assumes k: "0 < k" "k < 2 ^ 53" and z: "- 1074 \<le> z"
  shows "round_finite (of_int k * 2 powr of_int z) = of_int k * 2 powr of_int z"
proof -
  define x where "x = real_of_int k * 2 powr of_int z"
  define e where "e = ulp_exponent x"
  have x: "0 < x" using k by (simp add: x_def)
  have "real_of_int k < 2 ^ 53"
    using k(2) by (metis of_int_less_iff of_int_numeral of_int_power)
  then have "x < 2 ^ 53 * 2 powr of_int z" by (simp add: x_def)
  also have "\<dots> = 2 powr (of_int z + 53)" by (simp add: powr_add)
  finally have "x < 2 powr (of_int z + 53)" .
  then have "log 2 x < of_int z + 53" using x by (simp add: log_less_iff)
  then have "log 2 x < of_int (z + 53)" by simp
  then have "\<lfloor>log 2 x\<rfloor> < z + 53" by (simp only: floor_less_iff)
  then have ez: "e \<le> z" using z x by (simp add: e_def ulp_exponent_def)
  define n where "n = nat (z - e)"
  have zn: "z = e + int n" using ez by (simp add: n_def)
  have "2 powr of_int z = (2::real) powr of_int e * 2 ^ n"
    by (simp add: zn powr_add powr_realpow)
  then have xe: "x = real_of_int (k * 2 ^ n) * 2 powr of_int e"
    by (simp add: x_def)
  then have "x / 2 powr of_int e = real_of_int (k * 2 ^ n)" by simp
  then have "rne (x / 2 powr of_int e) = k * 2 ^ n" by (simp only: rne_of_int)
  then have "round_finite x = real_of_int (k * 2 ^ n) * 2 powr of_int e"
    using x by (simp add: round_finite_def e_def)
  then have "round_finite x = x" using xe by (simp only:)
  then show ?thesis by (simp only: x_def)
qed

lemma round_finite_one: "round_finite 1 = 1"
  using round_finite_dyadic [of 1 0] by simp

lemma threshold_gt_one: "1 < overflow_threshold"
  by (simp add: overflow_threshold_def)

lemma representableD:
  assumes "representable x"
  shows "round_finite x = x" and "\<bar>x\<bar> < overflow_threshold"
  using assms by (auto simp: representable_def round64_def split: if_splits)

lemma round64_unit:
  assumes "0 \<le> x" and "x \<le> 1"
  shows "round64 x = Fin (round_finite x)" and "0 \<le> round_finite x" and "round_finite x \<le> 1"
proof -
  show "round64 x = Fin (round_finite x)"
    using assms threshold_gt_one by (simp add: round64_def)
  show "0 \<le> round_finite x" using assms(1) by (rule round_finite_nonneg)
  show "round_finite x \<le> 1"
    using round_finite_mono [OF assms] by (simp add: round_finite_one)
qed

lemma one_minus:
  assumes "0 \<le> q" and "q \<le> 1"
  shows "double_sub (Fin 1) (Fin q) = Fin (round_finite (1 - q))"
proof (cases "q = 0")
  case True
  then show ?thesis by (simp add: double_sub_def round_finite_one)
next
  case False
  have "round64 (1 - q) = Fin (round_finite (1 - q))"
    using assms by (intro round64_unit(1)) simp_all
  then show ?thesis using False by (simp add: double_sub_def)
qed

lemma share_values:
  assumes r1: "representable m1" and r2: "representable m2" and p1: "0 < m1" and p2: "0 < m2"
  shows "\<exists>a b. double_sub (Fin 1) (double_div (Fin m1) (double_add (Fin m1) (Fin m2))) = Fin a
           \<and> double_sub (Fin 1) (double_div (Fin m2) (double_add (Fin m1) (Fin m2))) = Fin b
           \<and> 0 \<le> a \<and> a \<le> 1 \<and> 0 \<le> b \<and> b \<le> 1
           \<and> (m1 \<le> m2 \<longrightarrow> b \<le> a) \<and> (m2 \<le> m1 \<longrightarrow> a \<le> b)"
proof (cases "overflow_threshold \<le> m1 + m2")
  case True
  then have sum: "double_add (Fin m1) (Fin m2) = PosInf"
    using p1 p2 by (simp add: round64_def)
  have "double_sub (Fin 1) (double_div (Fin m1) PosInf) = Fin 1"
    and "double_sub (Fin 1) (double_div (Fin m2) PosInf) = Fin 1"
    using p1 p2 by (simp_all add: double_div_def signed_zero_def double_sub_def)
  then show ?thesis using sum by simp
next
  case False
  define S where "S = round_finite (m1 + m2)"
  have S1: "m1 \<le> S"
    using round_finite_mono [of m1 "m1 + m2"] representableD(1) [OF r1] p1 p2 by (simp add: S_def)
  have S2: "m2 \<le> S"
    using round_finite_mono [of m2 "m1 + m2"] representableD(1) [OF r2] p1 p2 by (simp add: S_def)
  have Spos: "0 < S" using S1 p1 by simp
  have sum: "double_add (Fin m1) (Fin m2) = Fin S"
    using False p1 p2 Spos by (simp add: round64_def S_def)
  define q1 where "q1 = round_finite (m1 / S)"
  define q2 where "q2 = round_finite (m2 / S)"
  have u1: "0 \<le> m1 / S" "m1 / S \<le> 1" using S1 Spos p1 by simp_all
  have u2: "0 \<le> m2 / S" "m2 / S \<le> 1" using S2 Spos p2 by simp_all
  have d1: "double_div (Fin m1) (Fin S) = Fin q1"
    using p1 Spos round64_unit(1) [OF u1] by (simp add: double_div_def q1_def)
  have d2: "double_div (Fin m2) (Fin S) = Fin q2"
    using p2 Spos round64_unit(1) [OF u2] by (simp add: double_div_def q2_def)
  have q1: "0 \<le> q1" "q1 \<le> 1" using round64_unit(2,3) [OF u1] by (simp_all add: q1_def)
  have q2: "0 \<le> q2" "q2 \<le> 1" using round64_unit(2,3) [OF u2] by (simp_all add: q2_def)
  define a where "a = round_finite (1 - q1)"
  define b where "b = round_finite (1 - q2)"
  have res1: "double_sub (Fin 1) (double_div (Fin m1) (double_add (Fin m1) (Fin m2))) = Fin a"
    using sum d1 one_minus [OF q1] by (simp add: a_def)
  have res2: "double_sub (Fin 1) (double_div (Fin m2) (double_add (Fin m1) (Fin m2))) = Fin b"
    using sum d2 one_minus [OF q2] by (simp add: b_def)
  have ra: "0 \<le> a" "a \<le> 1"
    using round64_unit(2,3) [of "1 - q1"] q1 by (simp_all add: a_def)
  have rb: "0 \<le> b" "b \<le> 1"
    using round64_unit(2,3) [of "1 - q2"] q2 by (simp_all add: b_def)
  have le12: "b \<le> a" if "m1 \<le> m2"
  proof -
    have "m1 / S \<le> m2 / S" using that Spos by (simp add: divide_right_mono)
    then have "q1 \<le> q2" unfolding q1_def q2_def using u1(1) by (intro round_finite_mono)
    then show ?thesis unfolding a_def b_def using q2 by (intro round_finite_mono) simp_all
  qed
  have le21: "a \<le> b" if "m2 \<le> m1"
  proof -
    have "m2 / S \<le> m1 / S" using that Spos by (simp add: divide_right_mono)
    then have "q2 \<le> q1" unfolding q1_def q2_def using u2(1) by (intro round_finite_mono)
    then show ?thesis unfolding a_def b_def using q1 by (intro round_finite_mono) simp_all
  qed
  show ?thesis
    by (intro exI [of _ a] exI [of _ b] conjI impI)
       (fact res1, fact res2, fact ra(1), fact ra(2), fact rb(1), fact rb(2), erule le12, erule le21)
qed

lemma round64_dyadic:
  assumes "0 < k" and "k < 2 ^ 53" and "- 1074 \<le> z"
    and "of_int k * 2 powr of_int z < overflow_threshold"
  shows "round64 (of_int k * 2 powr of_int z) = Fin (of_int k * 2 powr of_int z)"
  using assms round_finite_dyadic [of k z] by (simp add: round64_def)

text \<open>
  C2, as the code has it. For a link whose endpoint nodes have positive, finite masses
  \<open>m1\<close> (from) and \<open>m2\<close> (to), \<open>getMass\<close> returns exactly
  \<open>{fromNode: 1 - m1/(m1+m2), toNode: 1 - m2/(m1+m2)}\<close>, each operation rounded to
  binary64. Both shares are numbers between 0 and 1, and the lighter endpoint receives
  a share at least as large as the heavier one.
\<close>

theorem getMass_split:
  assumes "fromNode p = Some i" and "toNode p = Some j"
    and "i < length ns" and "j < length ns"
    and "mass (ns ! i) = Some (Fin m1)" and "mass (ns ! j) = Some (Fin m2)"
    and "representable m1" and "representable m2"
    and "0 < m1" and "0 < m2"
  shows "getMass ns p =
           Inr \<lparr> share_fromNode =
                   double_sub (Fin 1) (double_div (Fin m1) (double_add (Fin m1) (Fin m2))),
                 share_toNode =
                   double_sub (Fin 1) (double_div (Fin m2) (double_add (Fin m1) (Fin m2))) \<rparr>
         \<and> (\<exists>a b. getMass ns p = Inr \<lparr> share_fromNode = Fin a, share_toNode = Fin b \<rparr>
                \<and> 0 \<le> a \<and> a \<le> 1 \<and> 0 \<le> b \<and> b \<le> 1
                \<and> (m1 \<le> m2 \<longrightarrow> b \<le> a) \<and> (m2 \<le> m1 \<longrightarrow> a \<le> b))"
proof -
  have val: "getMass ns p =
           Inr \<lparr> share_fromNode =
                   double_sub (Fin 1) (double_div (Fin m1) (double_add (Fin m1) (Fin m2))),
                 share_toNode =
                   double_sub (Fin 1) (double_div (Fin m2) (double_add (Fin m1) (Fin m2))) \<rparr>"
    using assms(1-6) by (simp add: getMass_def node_at_def to_number_def Let_def)
  from share_values [OF assms(7-10)] obtain a b
    where "double_sub (Fin 1) (double_div (Fin m1) (double_add (Fin m1) (Fin m2))) = Fin a"
      and "double_sub (Fin 1) (double_div (Fin m2) (double_add (Fin m1) (Fin m2))) = Fin b"
      and rest: "0 \<le> a \<and> a \<le> 1 \<and> 0 \<le> b \<and> b \<le> 1
                 \<and> (m1 \<le> m2 \<longrightarrow> b \<le> a) \<and> (m2 \<le> m1 \<longrightarrow> a \<le> b)"
    by blast
  then have "getMass ns p = Inr \<lparr> share_fromNode = Fin a, share_toNode = Fin b \<rparr>"
    using val by simp
  then show ?thesis using val rest by blast
qed

lemma representable_one: "representable 1"
  using round64_dyadic [of 1 0] by (simp add: representable_def overflow_threshold_def)

lemma representable_three: "representable 3"
  using round64_dyadic [of 3 0] by (simp add: representable_def overflow_threshold_def)

lemma round64_four: "round64 4 = Fin 4"
  using round64_dyadic [of 1 2] by (simp add: overflow_threshold_def)

lemma round64_quarter: "round64 (1 / 4) = Fin (1 / 4)"
  using round64_dyadic [of 1 "- 2"] by (simp add: overflow_threshold_def powr_minus_divide)

lemma round64_three_quarters: "round64 (3 / 4) = Fin (3 / 4)"
  using round64_dyadic [of 3 "- 2"] by (simp add: overflow_threshold_def powr_minus_divide)

lemma floor_log2_eq:
  assumes "0 < x" and "2 powr of_int e \<le> x" and "x < 2 powr (of_int e + 1)"
  shows "\<lfloor>log 2 x\<rfloor> = e"
proof -
  have "of_int e \<le> log 2 x" using assms(1,2) by (simp add: le_log_iff)
  moreover have "log 2 x < of_int e + 1" using assms(1,3) by (simp add: log_less_iff)
  ultimately show ?thesis by linarith
qed

lemma round64_eval:
  assumes "0 < x" and "2 powr of_int e \<le> x" and "x < 2 powr (of_int e + 1)"
    and "- 1022 \<le> e" and "x < overflow_threshold"
    and "rne (x / 2 powr of_int (e - 52)) = n" and "0 < n"
  shows "round64 x = Fin (of_int n * 2 powr of_int (e - 52))"
proof -
  have "ulp_exponent x = e - 52"
    using floor_log2_eq [OF assms(1-3)] assms(1,4) by (simp add: ulp_exponent_def)
  then have "round_finite x = of_int n * 2 powr of_int (e - 52)"
    using assms(1,6) by (simp add: round_finite_def)
  then show ?thesis using assms(1,5,7) by (simp add: round64_def)
qed

lemma round64_third: "round64 (1 / 3) = Fin (6004799503160661 / 2 ^ 54)"
  using round64_eval [of "1 / 3" "- 2" 6004799503160661]
  by (simp add: overflow_threshold_def powr_minus_divide rne_def)

lemma round64_two_thirds: "round64 (2 / 3) = Fin (6004799503160661 / 2 ^ 53)"
  using round64_eval [of "2 / 3" "- 1" 6004799503160661]
  by (simp add: overflow_threshold_def powr_minus_divide rne_def)

lemma round64_one_minus_third:
  "round64 (1 - 6004799503160661 / 2 ^ 54) = Fin (6004799503160662 / 2 ^ 53)"
  using round64_eval [of "1 - 6004799503160661 / 2 ^ 54" "- 1" 6004799503160662]
  by (simp add: overflow_threshold_def powr_minus_divide rne_def)

lemma round64_one_minus_two_thirds:
  "round64 (1 - 6004799503160661 / 2 ^ 53) = Fin (6004799503160662 / 2 ^ 54)"
  using round64_eval [of "1 - 6004799503160661 / 2 ^ 53" "- 2" 6004799503160662]
  by (simp add: overflow_threshold_def powr_minus_divide rne_def)

lemma round64_three: "round64 3 = Fin 3"
  using representable_three by (simp add: representable_def)

theorem getMass_split_witness:
  "getMass [new_node ''A'' \<lparr> mass := Some (Fin 1) \<rparr>, new_node ''B'' \<lparr> mass := Some (Fin 3) \<rparr>]
           (link ''A'' ''B'' \<lparr> fromNode := Some 0, toNode := Some 1 \<rparr>)
     = Inr \<lparr> share_fromNode = Fin (3 / 4), share_toNode = Fin (1 / 4) \<rparr>"
proof -
  let ?ns = "[new_node ''A'' \<lparr> mass := Some (Fin 1) \<rparr>, new_node ''B'' \<lparr> mass := Some (Fin 3) \<rparr>]"
  let ?p = "link ''A'' ''B'' \<lparr> fromNode := Some 0, toNode := Some 1 \<rparr>"
  have h: "fromNode ?p = Some 0" "toNode ?p = Some 1" "0 < length ?ns" "1 < length ?ns"
    "mass (?ns ! 0) = Some (Fin 1)" "mass (?ns ! 1) = Some (Fin 3)"
    by (simp_all add: link_def new_node_def empty_point_def)
  have pos: "(0::real) < 1" "(0::real) < 3" by simp_all
  from getMass_split [OF h representable_one representable_three pos]
  have "getMass ?ns ?p =
           Inr \<lparr> share_fromNode =
                   double_sub (Fin 1) (double_div (Fin 1) (double_add (Fin 1) (Fin 3))),
                 share_toNode =
                   double_sub (Fin 1) (double_div (Fin 3) (double_add (Fin 1) (Fin 3))) \<rparr>"
    by blast
  moreover have "double_add (Fin 1) (Fin 3) = Fin 4" by (simp add: round64_four)
  moreover have "double_div (Fin 1) (Fin 4) = Fin (1 / 4)"
    by (simp add: double_div_def round64_quarter)
  moreover have "double_div (Fin 3) (Fin 4) = Fin (3 / 4)"
    by (simp add: double_div_def round64_three_quarters)
  moreover have "double_sub (Fin 1) (Fin (1 / 4)) = Fin (3 / 4)"
    by (simp add: double_sub_def round64_three_quarters)
  moreover have "double_sub (Fin 1) (Fin (3 / 4)) = Fin (1 / 4)"
    by (simp add: double_sub_def round64_quarter)
  ultimately show ?thesis by simp
qed

text \<open>
  The rounding is visible already at small masses: for the masses 1 and 2 the shares
  are \<open>6004799503160662 / 2^53\<close> and \<open>6004799503160662 / 2^54\<close>, the binary64
  numbers printed as 0.6666666666666667 and 0.33333333333333337, not the fractions
  2/3 and 1/3; their exact sum is above 1.
\<close>

lemma getMass_one_two:
  "getMass [new_node ''A'' \<lparr> mass := Some (Fin 1) \<rparr>, new_node ''B'' \<lparr> mass := Some (Fin 2) \<rparr>]
           (link ''A'' ''B'' \<lparr> fromNode := Some 0, toNode := Some 1 \<rparr>)
     = Inr \<lparr> share_fromNode = Fin (6004799503160662 / 2 ^ 53),
             share_toNode = Fin (6004799503160662 / 2 ^ 54) \<rparr>"
proof -
  have "double_add (Fin 1) (Fin 2) = Fin 3" by (simp add: round64_three)
  moreover have "double_div (Fin 1) (Fin 3) = Fin (6004799503160661 / 2 ^ 54)"
    by (simp add: double_div_def round64_third)
  moreover have "double_div (Fin 2) (Fin 3) = Fin (6004799503160661 / 2 ^ 53)"
    by (simp add: double_div_def round64_two_thirds)
  moreover have "double_sub (Fin 1) (Fin (6004799503160661 / 2 ^ 54))
                 = Fin (6004799503160662 / 2 ^ 53)"
    using round64_one_minus_third by (simp add: double_sub_def)
  moreover have "double_sub (Fin 1) (Fin (6004799503160661 / 2 ^ 53))
                 = Fin (6004799503160662 / 2 ^ 54)"
    using round64_one_minus_two_thirds by (simp add: double_sub_def)
  ultimately show ?thesis
    by (simp add: getMass_def node_at_def to_number_def link_def new_node_def empty_point_def
          Let_def)
qed

text \<open>
  C2, as stated, fails: the lighter endpoint need not receive the larger share. For
  the masses \<open>2^1023\<close> and \<open>3 * 2^1022\<close>, both binary64 numbers, the sum overflows
  to infinity, both quotients are 0 and both shares are 1.
\<close>

lemma rep_pow: "representable (2 ^ 1023)"
proof -
  have "round_finite (of_int 1 * 2 powr of_int 1023) = of_int 1 * 2 powr of_int 1023"
    by (rule round_finite_dyadic) simp_all
  then have "round_finite (2 ^ 1023) = 2 ^ 1023" by (simp add: powr_realpow [symmetric])
  then show ?thesis by (simp add: representable_def round64_def overflow_threshold_def)
qed

lemma rep_pow3: "representable (3 * 2 ^ 1022)"
proof -
  have "round_finite (of_int 3 * 2 powr of_int 1022) = of_int 3 * 2 powr of_int 1022"
    by (rule round_finite_dyadic) simp_all
  then have "round_finite (3 * 2 ^ 1022) = 3 * 2 ^ 1022" by (simp add: powr_realpow [symmetric])
  then show ?thesis by (simp add: representable_def round64_def overflow_threshold_def)
qed

theorem getMass_overflow_equal_shares:
  "representable (2 ^ 1023) \<and> representable (3 * 2 ^ 1022)
   \<and> (0::real) < 2 ^ 1023 \<and> (2::real) ^ 1023 < 3 * 2 ^ 1022
   \<and> getMass [new_node ''A'' \<lparr> mass := Some (Fin (2 ^ 1023)) \<rparr>,
               new_node ''B'' \<lparr> mass := Some (Fin (3 * 2 ^ 1022)) \<rparr>]
              (link ''A'' ''B'' \<lparr> fromNode := Some 0, toNode := Some 1 \<rparr>)
     = Inr \<lparr> share_fromNode = Fin 1, share_toNode = Fin 1 \<rparr>"
proof -
  have "getMass [new_node ''A'' \<lparr> mass := Some (Fin (2 ^ 1023)) \<rparr>,
               new_node ''B'' \<lparr> mass := Some (Fin (3 * 2 ^ 1022)) \<rparr>]
              (link ''A'' ''B'' \<lparr> fromNode := Some 0, toNode := Some 1 \<rparr>)
     = Inr \<lparr> share_fromNode = Fin 1, share_toNode = Fin 1 \<rparr>"
    by (simp add: getMass_def node_at_def to_number_def link_def new_node_def empty_point_def
          round64_def overflow_threshold_def double_div_def signed_zero_def double_sub_def Let_def)
  then show ?thesis using rep_pow rep_pow3 by simp
qed

section \<open>Properties of the drag handlers\<close>

lemma onMouseMove_idle:
  "fixedPosition p = None \<or> \<not> inDragMode p \<Longrightarrow> onMouseMove isInsidePlot L s p e = (p, [], None)"
  by (auto simp: onMouseMove_def split: option.splits)

text \<open>
  C6. During a drag (\<open>fixedPosition\<close> and \<open>inDragMode\<close> set), \<open>onMouseMove\<close> updates
  the node's position only if the pointer has moved more than 5 pixels along an axis
  since the start of the gesture. While the displacement is at most 5 pixels on both
  axes (in particular while the distance is at most 5 pixels) the point is left as it
  is and no layout method is called.
\<close>

theorem onMouseMove_threshold:
  assumes "fixedPosition p = Some fp" and "inDragMode p"
  shows "(\<bar>fixed_chartX fp - chartX e\<bar> \<le> 5 \<and> \<bar>fixed_chartY fp - chartY e\<bar> \<le> 5
            \<longrightarrow> onMouseMove isInsidePlot L s p e = (p, [], None))
       \<and> (sqrt ((fixed_chartX fp - chartX e)\<^sup>2 + (fixed_chartY fp - chartY e)\<^sup>2) \<le> 5
            \<longrightarrow> onMouseMove isInsidePlot L s p e = (p, [], None))
       \<and> (onMouseMove isInsidePlot L s p e \<noteq> (p, [], None)
            \<longrightarrow> 5 < \<bar>fixed_chartX fp - chartX e\<bar> \<or> 5 < \<bar>fixed_chartY fp - chartY e\<bar>)"
proof -
  have small: "onMouseMove isInsidePlot L s p e = (p, [], None)"
    if "\<bar>fixed_chartX fp - chartX e\<bar> \<le> 5" and "\<bar>fixed_chartY fp - chartY e\<bar> \<le> 5"
    using that assms by (simp add: onMouseMove_def Let_def)
  have euclid: "onMouseMove isInsidePlot L s p e = (p, [], None)"
    if r: "sqrt ((fixed_chartX fp - chartX e)\<^sup>2 + (fixed_chartY fp - chartY e)\<^sup>2) \<le> 5"
  proof -
    have "\<bar>fixed_chartX fp - chartX e\<bar> \<le> 5"
      using real_sqrt_ge_abs1 [of "fixed_chartX fp - chartX e" "fixed_chartY fp - chartY e"] r
      by linarith
    moreover have "\<bar>fixed_chartY fp - chartY e\<bar> \<le> 5"
      using real_sqrt_ge_abs2 [of "fixed_chartY fp - chartY e" "fixed_chartX fp - chartX e"] r
      by linarith
    ultimately show ?thesis by (rule small)
  qed
  have only_if: "5 < \<bar>fixed_chartX fp - chartX e\<bar> \<or> 5 < \<bar>fixed_chartY fp - chartY e\<bar>"
    if "onMouseMove isInsidePlot L s p e \<noteq> (p, [], None)"
    using that small by fastforce
  show ?thesis using small euclid only_if by blast
qed

theorem onMouseMove_threshold_witness:
  "onMouseMove inside800x600 still (sample_series 0 [] \<lparr> layout := Some 0 \<rparr>) dragged
     \<lparr> chartX = 113, chartY = 107 \<rparr> = (dragged, [], None)"
proof -
  have fp: "fixedPosition dragged = Some \<lparr> fixed_chartX = 110, fixed_chartY = 110,
              fixed_plotX = Some 100, fixed_plotY = Some 100 \<rparr>"
    and drag: "inDragMode dragged"
    by (simp_all add: dragged_def onMouseDown_def new_node_def empty_point_def)
  show ?thesis
    using onMouseMove_threshold [OF fp drag, of "\<lparr> chartX = 113, chartY = 107 \<rparr>" inside800x600
            still "sample_series 0 [] \<lparr> layout := Some 0 \<rparr>"]
    by simp
qed

text \<open>
  C7. When a drag moves the node (threshold exceeded, new position inside the plot)
  and no simulation is running, \<open>onMouseMove\<close> calls \<open>setInitialRendering(false)\<close>,
  \<open>run()\<close>, \<open>setInitialRendering(true)\<close> in this order, preceded by
  \<open>setMaxIterations(1)\<close> exactly when live simulation is disabled. When a simulation
  is running it calls \<open>resetSimulation()\<close> and nothing else: no new run is started.
\<close>

theorem onMouseMove_run:
  assumes "fixedPosition p = Some fp" and "inDragMode p"
    and "5 < \<bar>fixed_chartX fp - chartX e\<bar> \<or> 5 < \<bar>fixed_chartY fp - chartY e\<bar>"
    and "isInsidePlot (js_sub (fixed_plotX fp) (Some (fixed_chartX fp - chartX e)))
                      (js_sub (fixed_plotY fp) (Some (fixed_chartY fp - chartY e)))"
    and "layout s = Some l"
    and "onMouseMove isInsidePlot L s p e = (p', calls, err)"
  shows "p' = p \<lparr> plotX := js_sub (fixed_plotX fp) (Some (fixed_chartX fp - chartX e)),
                  plotY := js_sub (fixed_plotY fp) (Some (fixed_chartY fp - chartY e)) \<rparr>
       \<and> err = None
       \<and> (\<not> simulation (L l) \<and> \<not> enableSimulation (L l) \<longrightarrow>
            calls = [(l, SetMaxIterations 1), (l, SetInitialRendering False), (l, Run),
                     (l, SetInitialRendering True)])
       \<and> (\<not> simulation (L l) \<and> enableSimulation (L l) \<longrightarrow>
            calls = [(l, SetInitialRendering False), (l, Run), (l, SetInitialRendering True)])
       \<and> (simulation (L l) \<longrightarrow> calls = [(l, ResetSimulation)])
       \<and> ((l, SetMaxIterations 1) \<in> set calls \<longleftrightarrow> \<not> simulation (L l) \<and> \<not> enableSimulation (L l))
       \<and> ((l, Run) \<in> set calls \<longleftrightarrow> \<not> simulation (L l))
       \<and> ((l, ResetSimulation) \<in> set calls \<longleftrightarrow> simulation (L l))"
  using assms by (auto simp: onMouseMove_def Let_def split: if_splits)

theorem onMouseMove_run_witness:
  "onMouseMove inside800x600 still (sample_series 0 [] \<lparr> layout := Some 0 \<rparr>) dragged
     \<lparr> chartX = 130, chartY = 107 \<rparr>
     = (dragged \<lparr> plotX := Some 120, plotY := Some 97 \<rparr>,
        [(0, SetMaxIterations 1), (0, SetInitialRendering False), (0, Run),
         (0, SetInitialRendering True)], None)"
proof -
  let ?fp = "\<lparr> fixed_chartX = 110, fixed_chartY = 110, fixed_plotX = Some 100,
               fixed_plotY = Some 100 \<rparr>"
  let ?e = "\<lparr> chartX = 130, chartY = 107 \<rparr>"
  let ?s = "sample_series 0 [] \<lparr> layout := Some 0 \<rparr>"
  have fp: "fixedPosition dragged = Some ?fp" and drag: "inDragMode dragged"
    by (simp_all add: dragged_def onMouseDown_def new_node_def empty_point_def)
  have moved: "5 < \<bar>fixed_chartX ?fp - chartX ?e\<bar> \<or> 5 < \<bar>fixed_chartY ?fp - chartY ?e\<bar>"
    by simp
  have inside: "inside800x600 (js_sub (fixed_plotX ?fp) (Some (fixed_chartX ?fp - chartX ?e)))
                              (js_sub (fixed_plotY ?fp) (Some (fixed_chartY ?fp - chartY ?e)))"
    by (simp add: inside800x600_def js_sub_def)
  have lay: "layout ?s = Some 0" by simp
  obtain p' calls err where ev: "onMouseMove inside800x600 still ?s dragged ?e = (p', calls, err)"
    by (cases "onMouseMove inside800x600 still ?s dragged ?e")
  from onMouseMove_run [OF fp drag moved inside lay ev]
  have "p' = dragged \<lparr> plotX := Some 120, plotY := Some 97 \<rparr>" and "err = None"
    and "calls = [(0, SetMaxIterations 1), (0, SetInitialRendering False), (0, Run),
                  (0, SetInitialRendering True)]"
    by (simp_all add: still_def js_sub_def)
  then show ?thesis using ev by simp
qed

text \<open>
  C8, as the code has it. On release, when \<open>fixedPosition\<close> is set, \<open>onMouseUp\<close>
  first calls \<open>layout.run()\<close>, once, while the node is still pinned and
  \<open>inDragMode\<close> is still as the drag left it; only then it clears \<open>inDragMode\<close>
  and deletes \<open>fixedPosition\<close> unless the series' \<open>fixedDraggable\<close> option is set.
  When \<open>fixedPosition\<close> is not set it changes nothing and calls nothing.
\<close>

theorem onMouseUp_release:
  "(fixedPosition p = Some fp \<and> layout s = Some l \<longrightarrow>
      onMouseUp s p =
        (p \<lparr> inDragMode := False,
             fixedPosition := (if options_fixedDraggable s then Some fp else None) \<rparr>,
         [(l, Run, p)], None)
      \<and> (\<forall>(l', call, seen) \<in> set (fst (snd (onMouseUp s p))).
            call = Run \<and> fixedPosition seen = Some fp \<and> inDragMode seen = inDragMode p))
   \<and> (fixedPosition p = None \<longrightarrow> onMouseUp s p = (p, [], None))"
  by (auto simp: onMouseUp_def Let_def)

theorem onMouseUp_release_witness:
  "onMouseUp (sample_series 0 [] \<lparr> layout := Some 0 \<rparr>) dragged
     = (new_node ''A'' \<lparr> plotX := Some 100, plotY := Some 100 \<rparr>, [(0, Run, dragged)], None)
   \<and> onMouseUp (sample_series 0 [] \<lparr> layout := Some 0 \<rparr>) (new_node ''A'')
     = (new_node ''A'', [], None)"
  using onMouseUp_release [of dragged
          "\<lparr> fixed_chartX = 110, fixed_chartY = 110, fixed_plotX = Some 100, fixed_plotY = Some 100 \<rparr>"
          "sample_series 0 [] \<lparr> layout := Some 0 \<rparr>" 0]
        onMouseUp_release [of "new_node ''A''"
          "\<lparr> fixed_chartX = 110, fixed_chartY = 110, fixed_plotX = Some 100, fixed_plotY = Some 100 \<rparr>"
          "sample_series 0 [] \<lparr> layout := Some 0 \<rparr>" 0]
  by (simp add: dragged_def onMouseDown_def new_node_def empty_point_def sample_series_def)

text \<open>
  C8, as stated, fails: the run is not triggered for the released node. When
  \<open>onMouseUp\<close> calls \<open>run()\<close> on the layout of the dragged node \<open>A\<close>, the node
  still has its \<open>fixedPosition\<close> and is still in drag mode; the pin is deleted after
  the call.
\<close>

theorem onMouseUp_runs_while_pinned:
  "fst (snd (onMouseUp (sample_series 0 [] \<lparr> layout := Some 0 \<rparr>) dragged)) = [(0, Run, dragged)]
   \<and> fixedPosition dragged
       = Some \<lparr> fixed_chartX = 110, fixed_chartY = 110, fixed_plotX = Some 100,
                 fixed_plotY = Some 100 \<rparr>
   \<and> inDragMode dragged
   \<and> fixedPosition (fst (onMouseUp (sample_series 0 [] \<lparr> layout := Some 0 \<rparr>) dragged)) = None"
  by (simp add: onMouseUp_def dragged_def onMouseDown_def new_node_def empty_point_def
        sample_series_def Let_def)

lemma onMouseMove_cases:
  "onMouseMove isInsidePlot L s p e = (p, [], None)
   \<or> (\<exists>fp. fixedPosition p = Some fp \<and> inDragMode p
         \<and> fst (onMouseMove isInsidePlot L s p e)
             = p \<lparr> plotX := js_sub (fixed_plotX fp) (Some (fixed_chartX fp - chartX e)),
                    plotY := js_sub (fixed_plotY fp) (Some (fixed_chartY fp - chartY e)) \<rparr>
         \<and> isInsidePlot (js_sub (fixed_plotX fp) (Some (fixed_chartX fp - chartX e)))
                         (js_sub (fixed_plotY fp) (Some (fixed_chartY fp - chartY e))))"
  by (auto simp: onMouseMove_def Let_def split: option.splits)

lemma onMouseMove_inside:
  assumes "isInsidePlot (plotX p) (plotY p)"
  shows "isInsidePlot (plotX (fst (onMouseMove isInsidePlot L s p e)))
                      (plotY (fst (onMouseMove isInsidePlot L s p e)))"
  using onMouseMove_cases [of isInsidePlot L s p e] assms by auto

lemma mouseMoves_inside:
  "isInsidePlot (plotX p) (plotY p) \<Longrightarrow>
   isInsidePlot (plotX (mouseMoves isInsidePlot s p es)) (plotY (mouseMoves isInsidePlot s p es))"
proof (induction es arbitrary: p)
  case Nil
  then show ?case by simp
next
  case (Cons a es)
  obtain e L where a: "a = (e, L)" by (cases a)
  have "isInsidePlot (plotX (fst (onMouseMove isInsidePlot L s p e)))
                     (plotY (fst (onMouseMove isInsidePlot L s p e)))"
    using Cons.prems by (rule onMouseMove_inside)
  then show ?case using Cons.IH a by simp
qed

text \<open>
  C10. A drag never places a node outside the plot area: \<open>onMouseMove\<close> assigns the
  dragged position only when \<open>chart.isInsidePlot\<close> accepts it; when it does not, the
  point is left as it is and no layout method is called. So a node that is inside the
  plot stays inside through every \<open>mousemove\<close> of a drag.
\<close>

theorem drag_stays_inside_plot:
  "(fixedPosition p = Some fp
      \<and> \<not> isInsidePlot (js_sub (fixed_plotX fp) (Some (fixed_chartX fp - chartX e)))
                        (js_sub (fixed_plotY fp) (Some (fixed_chartY fp - chartY e)))
      \<longrightarrow> onMouseMove isInsidePlot L s p e = (p, [], None))
   \<and> (onMouseMove isInsidePlot L s p e \<noteq> (p, [], None) \<longrightarrow>
        (\<exists>fp. fixedPosition p = Some fp
           \<and> fst (onMouseMove isInsidePlot L s p e)
               = p \<lparr> plotX := js_sub (fixed_plotX fp) (Some (fixed_chartX fp - chartX e)),
                      plotY := js_sub (fixed_plotY fp) (Some (fixed_chartY fp - chartY e)) \<rparr>
           \<and> isInsidePlot (js_sub (fixed_plotX fp) (Some (fixed_chartX fp - chartX e)))
                           (js_sub (fixed_plotY fp) (Some (fixed_chartY fp - chartY e)))))
   \<and> (isInsidePlot (plotX p) (plotY p) \<longrightarrow>
        isInsidePlot (plotX (fst (onMouseMove isInsidePlot L s p e)))
                     (plotY (fst (onMouseMove isInsidePlot L s p e))))
   \<and> (isInsidePlot (plotX p) (plotY p) \<longrightarrow>
        isInsidePlot (plotX (mouseMoves isInsidePlot s p es))
                     (plotY (mouseMoves isInsidePlot s p es)))"
proof -
  have outside: "onMouseMove isInsidePlot L s p e = (p, [], None)"
    if "fixedPosition p = Some fp"
      and "\<not> isInsidePlot (js_sub (fixed_plotX fp) (Some (fixed_chartX fp - chartX e)))
                           (js_sub (fixed_plotY fp) (Some (fixed_chartY fp - chartY e)))"
    using that by (simp add: onMouseMove_def Let_def)
  show ?thesis
    using outside onMouseMove_cases [of isInsidePlot L s p e]
      onMouseMove_inside [of isInsidePlot p L s e] mouseMoves_inside [of isInsidePlot p s es]
    by blast
qed

theorem drag_stays_inside_plot_witness:
  "inside800x600 (plotX dragged) (plotY dragged)
   \<and> onMouseMove inside800x600 still (sample_series 0 [] \<lparr> layout := Some 0 \<rparr>) dragged
        \<lparr> chartX = 0, chartY = 107 \<rparr> = (dragged, [], None)
   \<and> mouseMoves inside800x600 (sample_series 0 [] \<lparr> layout := Some 0 \<rparr>) dragged
        [(\<lparr> chartX = 130, chartY = 107 \<rparr>, still), (\<lparr> chartX = 0, chartY = 107 \<rparr>, still),
         (\<lparr> chartX = 113, chartY = 107 \<rparr>, still)]
       = dragged \<lparr> plotX := Some 120, plotY := Some 97 \<rparr>
   \<and> inside800x600
        (plotX (mouseMoves inside800x600 (sample_series 0 [] \<lparr> layout := Some 0 \<rparr>) dragged
          [(\<lparr> chartX = 130, chartY = 107 \<rparr>, still), (\<lparr> chartX = 0, chartY = 107 \<rparr>, still),
           (\<lparr> chartX = 113, chartY = 107 \<rparr>, still)]))
        (plotY (mouseMoves inside800x600 (sample_series 0 [] \<lparr> layout := Some 0 \<rparr>) dragged
          [(\<lparr> chartX = 130, chartY = 107 \<rparr>, still), (\<lparr> chartX = 0, chartY = 107 \<rparr>, still),
           (\<lparr> chartX = 113, chartY = 107 \<rparr>, still)]))"
proof -
  have start: "inside800x600 (plotX dragged) (plotY dragged)"
    by (simp add: dragged_def onMouseDown_def new_node_def empty_point_def inside800x600_def)
  have fp: "fixedPosition dragged = Some \<lparr> fixed_chartX = 110, fixed_chartY = 110,
              fixed_plotX = Some 100, fixed_plotY = Some 100 \<rparr>"
    by (simp add: dragged_def onMouseDown_def new_node_def empty_point_def)
  have out: "\<not> inside800x600 (js_sub (Some 100) (Some (110 - 0))) (js_sub (Some 100) (Some (110 - 107)))"
    by (simp add: inside800x600_def js_sub_def)
  have moves: "mouseMoves inside800x600 (sample_series 0 [] \<lparr> layout := Some 0 \<rparr>) dragged
        [(\<lparr> chartX = 130, chartY = 107 \<rparr>, still), (\<lparr> chartX = 0, chartY = 107 \<rparr>, still),
         (\<lparr> chartX = 113, chartY = 107 \<rparr>, still)]
       = dragged \<lparr> plotX := Some 120, plotY := Some 97 \<rparr>"
    by (simp add: dragged_def onMouseDown_def new_node_def empty_point_def inside800x600_def
          js_sub_def onMouseMove_def sample_series_def still_def Let_def)
  show ?thesis
    using start fp out moves
      drag_stays_inside_plot [of dragged
        "\<lparr> fixed_chartX = 110, fixed_chartY = 110, fixed_plotX = Some 100, fixed_plotY = Some 100 \<rparr>"
        inside800x600 "\<lparr> chartX = 0, chartY = 107 \<rparr>" still
        "sample_series 0 [] \<lparr> layout := Some 0 \<rparr>"
        "[(\<lparr> chartX = 130, chartY = 107 \<rparr>, still), (\<lparr> chartX = 0, chartY = 107 \<rparr>, still),
          (\<lparr> chartX = 113, chartY = 107 \<rparr>, still)]"]
    by simp
qed

section \<open>Properties of deferLayout\<close>

lemma js_get_Own: "js_get obj k = Own v \<longleftrightarrow> map_of obj k = Some v"
  by (auto simp: js_get_def split: option.splits)

lemma js_get_Undefined: "js_get obj k = Undefined \<Longrightarrow> map_of obj k = None"
  by (auto simp: js_get_def split: option.splits if_splits)

lemma deferLayout_invisible:
  "\<not> visible s \<Longrightarrow> deferLayout H heap c s = Inr (s, c, heap, [])"
  by (simp add: deferLayout_def)

lemma deferLayout_found:
  assumes "visible s"
    and "deferLayout H heap c s = Inr (s', c', heap', tr)"
    and "graphLayoutsStorage c = Some st"
    and "map_of st (layout_type (options_layoutAlgorithm s)) = Some l"
  shows "layout s' = Some l \<and> graphLayoutsStorage c' = Some st \<and> heap' = heap
         \<and> tr = [(l, SetArea 0 0 (plotWidth c) (plotHeight c)),
                  (l, AddSeries (index s)), (l, AddNodes (index s)), (l, AddLinks (index s))]"
  using assms by (auto simp: deferLayout_def Let_def js_get_def)

lemma deferLayout_created:
  assumes "visible s"
    and "deferLayout H heap c s = Inr (s', c', heap', tr)"
    and "map_of (case graphLayoutsStorage c of None \<Rightarrow> [] | Some st \<Rightarrow> st)
           (layout_type (options_layoutAlgorithm s)) = None"
  shows "layout s' = Some (length heap)
         \<and> graphLayoutsStorage c' =
             Some ((case graphLayoutsStorage c of None \<Rightarrow> [] | Some st \<Rightarrow> st)
                   @ [(layout_type (options_layoutAlgorithm s), length heap)])
         \<and> length heap' = Suc (length heap)
         \<and> layout_type (options_layoutAlgorithm s) \<in> set H"
  using assms by (auto simp: deferLayout_def Let_def js_get_def split: if_splits)

lemma storage_values_inj:
  assumes "distinct (map snd st)" and "map_of st k1 = Some l" and "map_of st k2 = Some l"
  shows "k1 = k2"
proof -
  have "(k1, l) \<in> set st" and "(k2, l) \<in> set st"
    using assms by (auto dest: map_of_SomeD)
  moreover have "inj_on snd (set st)"
    using assms(1) by (simp add: distinct_map)
  ultimately show ?thesis
    using inj_onD [of snd "set st" "(k1, l)" "(k2, l)"] by simp
qed

lemma storage_ok_bound:
  assumes "storage_ok heap c" and "graphLayoutsStorage c = Some st" and "map_of st k = Some l"
  shows "l < length heap"
proof -
  have "(k, l) \<in> set st" using assms(3) by (rule map_of_SomeD)
  then show ?thesis using assms(1,2) by (auto simp: storage_ok_def list_all_iff)
qed

lemma deferLayout_registers:
  assumes ok: "storage_ok heap c" and vis: "visible s"
    and d: "deferLayout H heap c s = Inr (s', c', heap', tr)"
  shows "\<exists>l st'. layout s' = Some l \<and> graphLayoutsStorage c' = Some st'
           \<and> map_of st' (layout_type (options_layoutAlgorithm s)) = Some l
           \<and> storage_ok heap' c'
           \<and> (\<forall>st k v. graphLayoutsStorage c = Some st \<longrightarrow> map_of st k = Some v
                  \<longrightarrow> map_of st' k = Some v)
           \<and> (\<forall>st v. graphLayoutsStorage c = Some st
                  \<longrightarrow> map_of st (layout_type (options_layoutAlgorithm s)) = Some v
                  \<longrightarrow> heap' = heap \<and> st' = st)"
proof (cases "map_of (case graphLayoutsStorage c of None \<Rightarrow> [] | Some st \<Rightarrow> st)
                (layout_type (options_layoutAlgorithm s))")
  case None
  define st0 where "st0 = (case graphLayoutsStorage c of None \<Rightarrow> [] | Some st \<Rightarrow> st)"
  define k where "k = layout_type (options_layoutAlgorithm s)"
  have none: "map_of st0 k = None" using None by (simp add: st0_def k_def)
  from deferLayout_created [OF vis d None]
  have l: "layout s' = Some (length heap)"
    and st: "graphLayoutsStorage c' = Some (st0 @ [(k, length heap)])"
    and h: "length heap' = Suc (length heap)" by (auto simp: st0_def k_def)
  have k_new: "k \<notin> fst ` set st0"
    using none by (simp add: map_of_eq_None_iff)
  have ok0: "distinct (map fst st0)" "distinct (map snd st0)"
    "\<forall>(k, l) \<in> set st0. l < length heap"
    using ok by (auto simp: storage_ok_def st0_def list_all_iff split: option.splits)
  have fresh: "length heap \<notin> snd ` set st0"
    using ok0(3) by fastforce
  have bound: "\<forall>(k, l) \<in> set st0. l < Suc (length heap)"
    using ok0(3) by fastforce
  have ok': "storage_ok heap' c'"
    using ok0(1,2) k_new fresh bound h st by (simp add: storage_ok_def list_all_iff)
  have look: "map_of (st0 @ [(k, length heap)]) k = Some (length heap)"
    using none by (simp add: map_add_def)
  have keep: "map_of (st0 @ [(k, length heap)]) k' = Some v"
    if "map_of st0 k' = Some v" for k' v
    using that by (simp add: map_add_def)
  have from_c: "st0 = st1" if "graphLayoutsStorage c = Some st1" for st1
    using that by (simp add: st0_def)
  show ?thesis
    using l st h ok' look keep none from_c unfolding k_def [symmetric] by fastforce
next
  case (Some l)
  then obtain st where st: "graphLayoutsStorage c = Some st"
    and m: "map_of st (layout_type (options_layoutAlgorithm s)) = Some l"
    by (cases "graphLayoutsStorage c") auto
  from deferLayout_found [OF vis d st m]
  have "layout s' = Some l" and "graphLayoutsStorage c' = Some st" and "heap' = heap" by auto
  then show ?thesis using st m ok by (auto simp: storage_ok_def)
qed

lemma deferLayout_trace:
  assumes "visible s" and "deferLayout H heap c s = Inr (s', c', heap', tr)"
  shows "\<exists>l. layout s' = Some l
           \<and> tr = [(l, SetArea 0 0 (plotWidth c) (plotHeight c)),
                    (l, AddSeries (index s)), (l, AddNodes (index s)), (l, AddLinks (index s))]"
  using assms
  by (auto simp: deferLayout_def Let_def split: property.splits if_splits)

lemma deferLayout_step:
  assumes ok: "storage_ok heap c" and d: "deferLayout H heap c s = Inr (s', c', heap', tr)"
  shows "storage_ok heap' c'
         \<and> (\<exists>ext. storage_list c' = storage_list c @ ext \<and> length heap' = length heap + length ext)
         \<and> (visible s \<longrightarrow> (\<exists>l. layout s' = Some l
               \<and> map_of (storage_list c') (layout_type (options_layoutAlgorithm s)) = Some l
               \<and> tr = [(l, SetArea 0 0 (plotWidth c) (plotHeight c)), (l, AddSeries (index s)),
                        (l, AddNodes (index s)), (l, AddLinks (index s))]))"
proof (cases "visible s")
  case False
  then show ?thesis using ok d by (simp add: deferLayout_def)
next
  case True
  from deferLayout_registers [OF ok True d] obtain l st'
    where l: "layout s' = Some l" and st': "graphLayoutsStorage c' = Some st'"
      and m: "map_of st' (layout_type (options_layoutAlgorithm s)) = Some l"
      and ok': "storage_ok heap' c'"
    by blast
  from deferLayout_trace [OF True d] l
  have tr: "tr = [(l, SetArea 0 0 (plotWidth c) (plotHeight c)), (l, AddSeries (index s)),
                  (l, AddNodes (index s)), (l, AddLinks (index s))]" by auto
  have ext: "\<exists>ext. storage_list c' = storage_list c @ ext \<and> length heap' = length heap + length ext"
    using d True
    by (auto simp: deferLayout_def storage_list_def Let_def
          split: property.splits if_splits option.splits)
  show ?thesis using l st' m ok' tr ext by (simp add: storage_list_def)
qed

lemma map_of_append_keep: "map_of st k = Some l \<Longrightarrow> map_of (st @ ext) k = Some l"
  by (simp add: map_add_def)

lemma deferLayouts_entries:
  "storage_ok heap c \<Longrightarrow> deferLayouts H heap c regs = Inr (res, c', heap') \<Longrightarrow>
   length res = length regs \<and> storage_ok heap' c'
   \<and> (\<exists>ext. storage_list c' = storage_list c @ ext \<and> length heap' = length heap + length ext)
   \<and> (\<forall>i < length regs. visible (snd (snd (regs ! i))) \<longrightarrow>
         (\<exists>l. registered (regs ! i) (res ! i) l
            \<and> map_of (storage_list c') (layout_type (options_layoutAlgorithm (snd (snd (regs ! i))))) = Some l))"
proof (induction regs arbitrary: heap c res)
  case Nil
  then show ?case by auto
next
  case (Cons r regs)
  obtain w h s where r: "r = (w, h, s)" by (cases r)
  let ?c0 = "c \<lparr> plotWidth := w, plotHeight := h \<rparr>"
  from Cons.prems(2) r obtain s1 c1 heap1 t1 res2
    where d1: "deferLayout H heap ?c0 s = Inr (s1, c1, heap1, t1)"
      and d2: "deferLayouts H heap1 c1 regs = Inr (res2, c', heap')"
      and res: "res = (s1, t1) # res2"
    by (auto split: sum.splits)
  have ok0: "storage_ok heap ?c0" using Cons.prems(1) by (simp add: storage_ok_def)
  have sl0: "storage_list ?c0 = storage_list c" by (simp add: storage_list_def)
  from deferLayout_step [OF ok0 d1] sl0 obtain ext1
    where ok1: "storage_ok heap1 c1"
      and e1: "storage_list c1 = storage_list c @ ext1" "length heap1 = length heap + length ext1"
      and v1: "visible s \<longrightarrow> (\<exists>l. layout s1 = Some l
               \<and> map_of (storage_list c1) (layout_type (options_layoutAlgorithm s)) = Some l
               \<and> t1 = [(l, SetArea 0 0 w h), (l, AddSeries (index s)),
                        (l, AddNodes (index s)), (l, AddLinks (index s))])"
    by auto
  from Cons.IH [OF ok1 d2] obtain ext2
    where len2: "length res2 = length regs" and ok2: "storage_ok heap' c'"
      and e2: "storage_list c' = storage_list c1 @ ext2" "length heap' = length heap1 + length ext2"
      and rest: "\<forall>i < length regs. visible (snd (snd (regs ! i))) \<longrightarrow>
         (\<exists>l. registered (regs ! i) (res2 ! i) l
            \<and> map_of (storage_list c') (layout_type (options_layoutAlgorithm (snd (snd (regs ! i))))) = Some l)"
    by auto
  have ext: "storage_list c' = storage_list c @ (ext1 @ ext2)
             \<and> length heap' = length heap + length (ext1 @ ext2)"
    using e1 e2 by simp
  have first: "\<exists>l. registered r ((s1, t1)) l
            \<and> map_of (storage_list c') (layout_type (options_layoutAlgorithm s)) = Some l"
    if "visible s"
  proof -
    from v1 that obtain l where l: "layout s1 = Some l"
      and m: "map_of (storage_list c1) (layout_type (options_layoutAlgorithm s)) = Some l"
      and t: "t1 = [(l, SetArea 0 0 w h), (l, AddSeries (index s)),
                        (l, AddNodes (index s)), (l, AddLinks (index s))]" by blast
    have "map_of (storage_list c') (layout_type (options_layoutAlgorithm s)) = Some l"
      using m e2(1) by (simp add: map_of_append_keep)
    then show ?thesis using l t r by (auto simp: registered_def)
  qed
  have all: "\<exists>l. registered ((r # regs) ! i) (res ! i) l
            \<and> map_of (storage_list c') (layout_type (options_layoutAlgorithm (snd (snd ((r # regs) ! i))))) = Some l"
    if "i < length (r # regs)" and "visible (snd (snd ((r # regs) ! i)))" for i
  proof (cases i)
    case 0
    then show ?thesis using first that res r by simp
  next
    case (Suc k)
    then show ?thesis using rest that res by simp
  qed
  have A: "length res = length (r # regs)" using len2 res by simp
  have B: "\<exists>ext. storage_list c' = storage_list c @ ext \<and> length heap' = length heap + length ext"
    using ext by (intro exI [of _ "ext1 @ ext2"])
  have C: "\<forall>i < length (r # regs). visible (snd (snd ((r # regs) ! i))) \<longrightarrow>
         (\<exists>l. registered ((r # regs) ! i) (res ! i) l
            \<and> map_of (storage_list c') (layout_type (options_layoutAlgorithm (snd (snd ((r # regs) ! i))))) = Some l)"
    using all by (intro allI impI)
  show ?case by (intro conjI) (fact A, fact ok2, fact B, fact C)
qed

text \<open>
  C1, as the code has it. A layout instance is created once per algorithm type on a
  chart and shared by every visible series of the chart that asks for the type,
  whatever the plot area at the time. Take any sequence of registrations on one chart,
  the plot size changing freely between them, and any two visible series \<open>i\<close> and
  \<open>j\<close> of the sequence (with any number of other registrations before, between and
  after them): each is left with a layout stored in \<open>chart.graphLayoutsStorage\<close>
  under its type and has passed it the area of its own registration with
  \<open>setArea\<close>; the two layouts are the same object exactly when the two types are
  equal; the storage holds every type once and every layout once; and the heap has
  grown by exactly one layout per type added to the storage.
\<close>

theorem deferLayout_shared_by_type:
  assumes ok: "storage_ok heap c"
    and r: "deferLayouts H heap c regs = Inr (res, c', heap')"
    and i: "i < length regs" and j: "j < length regs"
    and vi: "visible (snd (snd (regs ! i)))" and vj: "visible (snd (snd (regs ! j)))"
  shows "\<exists>li lj st.
           registered (regs ! i) (res ! i) li \<and> registered (regs ! j) (res ! j) lj
           \<and> graphLayoutsStorage c' = Some st
           \<and> map_of st (layout_type (options_layoutAlgorithm (snd (snd (regs ! i))))) = Some li
           \<and> map_of st (layout_type (options_layoutAlgorithm (snd (snd (regs ! j))))) = Some lj
           \<and> (li = lj \<longleftrightarrow>
                layout_type (options_layoutAlgorithm (snd (snd (regs ! i))))
                  = layout_type (options_layoutAlgorithm (snd (snd (regs ! j)))))
           \<and> distinct (map fst st) \<and> distinct (map snd st)
           \<and> length heap' = length heap + (length st - length (storage_list c))"
proof -
  let ?ti = "layout_type (options_layoutAlgorithm (snd (snd (regs ! i))))"
  let ?tj = "layout_type (options_layoutAlgorithm (snd (snd (regs ! j))))"
  from deferLayouts_entries [OF ok r] obtain ext
    where ok': "storage_ok heap' c'"
      and e: "storage_list c' = storage_list c @ ext" "length heap' = length heap + length ext"
      and all: "\<forall>i < length regs. visible (snd (snd (regs ! i))) \<longrightarrow>
         (\<exists>l. registered (regs ! i) (res ! i) l
            \<and> map_of (storage_list c') (layout_type (options_layoutAlgorithm (snd (snd (regs ! i))))) = Some l)"
    by auto
  from all i vi obtain li where li: "registered (regs ! i) (res ! i) li"
    and mi: "map_of (storage_list c') ?ti = Some li" by blast
  from all j vj obtain lj where lj: "registered (regs ! j) (res ! j) lj"
    and mj: "map_of (storage_list c') ?tj = Some lj" by blast
  obtain st where st: "graphLayoutsStorage c' = Some st"
    using mi by (cases "graphLayoutsStorage c'") (auto simp: storage_list_def)
  have sl: "storage_list c' = st" using st by (simp add: storage_list_def)
  have d: "distinct (map fst st)" "distinct (map snd st)"
    using ok' st by (simp_all add: storage_ok_def)
  have iff: "li = lj \<longleftrightarrow> ?ti = ?tj"
  proof
    assume "li = lj"
    then show "?ti = ?tj" using storage_values_inj [OF d(2), of ?ti li ?tj] mi mj sl by simp
  next
    assume "?ti = ?tj"
    then show "li = lj" using mi mj by simp
  qed
  have len: "length heap' = length heap + (length st - length (storage_list c))"
    using e sl by simp
  have mi': "map_of st ?ti = Some li" and mj': "map_of st ?tj = Some lj"
    using mi mj sl by simp_all
  show ?thesis
    by (intro exI [of _ li] exI [of _ lj] exI [of _ st] conjI)
       (fact li, fact lj, fact st, fact mi', fact mj', fact iff, fact d(1), fact d(2), fact len)
qed

theorem deferLayout_shared_by_type_witness:
  "storage_ok [] sample_chart
   \<and> deferLayouts [''reingold-fruchterman'', ''circular''] [] sample_chart
        [(800, 600, sample_series 0 [link ''A'' ''B'']),
         (800, 600, circular_series 1 [link ''C'' ''D'']),
         (400, 300, sample_series 2 [link ''E'' ''F''])]
     = Inr ([(sample_series 0 [link ''A'' ''B''] \<lparr> layout := Some 0 \<rparr>,
              [(0, SetArea 0 0 800 600), (0, AddSeries 0), (0, AddNodes 0), (0, AddLinks 0)]),
             (circular_series 1 [link ''C'' ''D''] \<lparr> layout := Some 1 \<rparr>,
              [(1, SetArea 0 0 800 600), (1, AddSeries 1), (1, AddNodes 1), (1, AddLinks 1)]),
             (sample_series 2 [link ''E'' ''F''] \<lparr> layout := Some 0 \<rparr>,
              [(0, SetArea 0 0 400 300), (0, AddSeries 2), (0, AddNodes 2), (0, AddLinks 2)])],
            sample_chart \<lparr> graphLayoutsStorage :=
                             Some [(''reingold-fruchterman'', 0), (''circular'', 1)],
                           plotWidth := 400, plotHeight := 300 \<rparr>,
            [fruchterman, circular])"
proof -
  let ?regs = "[(800, 600, sample_series 0 [link ''A'' ''B'']),
         (800, 600, circular_series 1 [link ''C'' ''D'']),
         (400, 300, sample_series 2 [link ''E'' ''F''])]"
  have ok: "storage_ok [] sample_chart"
    by (simp add: storage_ok_def sample_chart_def)
  have r: "deferLayouts [''reingold-fruchterman'', ''circular''] [] sample_chart ?regs
     = Inr ([(sample_series 0 [link ''A'' ''B''] \<lparr> layout := Some 0 \<rparr>,
              [(0, SetArea 0 0 800 600), (0, AddSeries 0), (0, AddNodes 0), (0, AddLinks 0)]),
             (circular_series 1 [link ''C'' ''D''] \<lparr> layout := Some 1 \<rparr>,
              [(1, SetArea 0 0 800 600), (1, AddSeries 1), (1, AddNodes 1), (1, AddLinks 1)]),
             (sample_series 2 [link ''E'' ''F''] \<lparr> layout := Some 0 \<rparr>,
              [(0, SetArea 0 0 400 300), (0, AddSeries 2), (0, AddNodes 2), (0, AddLinks 2)])],
            sample_chart \<lparr> graphLayoutsStorage :=
                             Some [(''reingold-fruchterman'', 0), (''circular'', 1)],
                           plotWidth := 400, plotHeight := 300 \<rparr>,
            [fruchterman, circular])"
    by (simp add: deferLayout_def sample_chart_def sample_series_def circular_series_def
          fruchterman_def circular_def js_get_def object_prototype_keys_def Let_def)
  have i: "0 < length ?regs" and j: "2 < length ?regs" by simp_all
  have vi: "visible (snd (snd (?regs ! 0)))" and vj: "visible (snd (snd (?regs ! 2)))"
    by (simp_all add: sample_series_def)
  show ?thesis
    using ok r deferLayout_shared_by_type [OF ok r i j vi vj] by simp
qed

text \<open>
  C1, as stated, fails: the area is not part of the key. A series registered when the
  plot is 800 by 600 and a series of the same type registered when the plot is 400 by
  300 receive the same layout object (address 0), whose area the second registration
  overwrites.
\<close>

theorem deferLayout_same_type_other_area:
  "deferLayout [''reingold-fruchterman''] [] sample_chart (sample_series 0 [link ''A'' ''B''])
     = Inr (sample_series 0 [link ''A'' ''B''] \<lparr> layout := Some 0 \<rparr>,
            sample_chart \<lparr> graphLayoutsStorage := Some [(''reingold-fruchterman'', 0)] \<rparr>,
            [fruchterman],
            [(0, SetArea 0 0 800 600), (0, AddSeries 0), (0, AddNodes 0), (0, AddLinks 0)])
   \<and> deferLayout [''reingold-fruchterman''] [fruchterman]
        (sample_chart \<lparr> graphLayoutsStorage := Some [(''reingold-fruchterman'', 0)],
                        plotWidth := 400, plotHeight := 300 \<rparr>)
        (sample_series 1 [link ''C'' ''D''])
     = Inr (sample_series 1 [link ''C'' ''D''] \<lparr> layout := Some 0 \<rparr>,
            sample_chart \<lparr> graphLayoutsStorage := Some [(''reingold-fruchterman'', 0)],
                           plotWidth := 400, plotHeight := 300 \<rparr>,
            [fruchterman],
            [(0, SetArea 0 0 400 300), (0, AddSeries 1), (0, AddNodes 1), (0, AddLinks 1)])
   \<and> (plotWidth sample_chart, plotHeight sample_chart) \<noteq> (400, 300)"
  by (simp add: deferLayout_def sample_chart_def sample_series_def fruchterman_def js_get_def
        object_prototype_keys_def Let_def)

section \<open>Stopping before running\<close>

lemma deferLayout_extends:
  assumes "deferLayout H heap c s = Inr (s', c', heap', tr)"
  shows "\<exists>ext. storage_list c' = storage_list c @ ext"
  using assms
  by (auto simp: deferLayout_def storage_list_def Let_def split: property.splits if_splits option.splits)

lemma translate_extends:
  assumes "translate H heap c s = Inr (s', c', heap', tr)"
  shows "\<exists>ext. storage_list c' = storage_list c @ ext"
  using assms deferLayout_extends
  by (auto simp: translate_def split: sum.splits)

lemma translate_all_extends:
  "translate_all H heap c ss = Inr (ss', c', heap', tr) \<Longrightarrow>
   \<exists>ext. storage_list c' = storage_list c @ ext"
proof (induction ss arbitrary: heap c ss' c' heap' tr)
  case Nil
  then show ?case by simp
next
  case (Cons s ss)
  from Cons.prems obtain s1 c1 heap1 t1 ss2 t2
    where tr1: "translate H heap c s = Inr (s1, c1, heap1, t1)"
      and tr2: "translate_all H heap1 c1 ss = Inr (ss2, c', heap', t2)"
    by (auto split: sum.splits)
  from translate_extends [OF tr1] obtain e1 where "storage_list c1 = storage_list c @ e1" ..
  moreover from Cons.IH [OF tr2] obtain e2 where "storage_list c' = storage_list c1 @ e2" ..
  ultimately have "storage_list c' = storage_list c @ (e1 @ e2)" by simp
  then show ?case ..
qed

lemma predraw_list: "predraw c = map (\<lambda>(k, l). (l, Stop)) (storage_list c)"
  by (simp add: predraw_def storage_list_def split: option.splits)

lemma render_list: "render c = map (\<lambda>(k, l). (l, Run)) (storage_list c)"
  by (simp add: render_def storage_list_def split: option.splits)

lemma redraw_order:
  assumes r: "redraw H heap c ss = Inr (ss', c', heap', tr)"
    and st: "graphLayoutsStorage c = Some st" and mem: "(k, l) \<in> set st"
  shows "\<exists>pre post. tr = pre @ (l, Stop) # post \<and> (l, Run) \<notin> set pre \<and> (l, Run) \<in> set post"
proof -
  from r obtain t1 where ta: "translate_all H heap c ss = Inr (ss', c', heap', t1)"
    and tr: "tr = predraw c @ t1 @ render c'"
    by (auto simp: redraw_def Let_def split: sum.splits)
  have sl: "storage_list c = st" using st by (simp add: storage_list_def)
  from translate_all_extends [OF ta] sl obtain ext where ext: "storage_list c' = st @ ext" by auto
  from mem obtain a b where ab: "st = a @ (k, l) # b" by (auto dest: split_list)
  let ?pre = "map (\<lambda>(k, l). (l, Stop)) a"
  let ?post = "map (\<lambda>(k, l). (l, Stop)) b @ t1 @ render c'"
  have "tr = ?pre @ (l, Stop) # ?post"
    using tr ab sl by (simp add: predraw_list)
  moreover have "(l, Run) \<notin> set ?pre" by auto
  moreover have "(l, Run) \<in> set (render c')"
    using ext mem by (force simp: render_list)
  ultimately show ?thesis by (intro exI [of _ ?pre] exI [of _ ?post]) simp
qed

text \<open>
  C9. Stop precedes the next run. When a series' data is replaced, the handler of
  \<open>updatedData\<close> calls \<open>stop()\<close> on the series' layout. The \<open>predraw\<close> handler
  calls \<open>stop()\<close> and the \<open>render\<close> handler calls \<open>run()\<close> on every layout of
  \<open>graphLayoutsStorage\<close>; in the calls of a redraw, every layout that is in the
  storage when the redraw starts is stopped before it is run.
\<close>

theorem stop_precedes_run:
  "(layout s = Some l \<longrightarrow> updatedData s = [(l, Stop)])
   \<and> (graphLayoutsStorage c = Some st \<and> (k, l) \<in> set st
        \<longrightarrow> (l, Stop) \<in> set (predraw c) \<and> (l, Run) \<in> set (render c))
   \<and> (redraw H heap c ss = Inr (ss', c', heap', tr) \<and> graphLayoutsStorage c = Some st
        \<and> (k, l) \<in> set st
        \<longrightarrow> (\<exists>pre post. tr = pre @ (l, Stop) # post \<and> (l, Run) \<notin> set pre
                \<and> (l, Run) \<in> set post))"
proof -
  have a: "updatedData s = [(l, Stop)]" if "layout s = Some l"
    using that by (simp add: updatedData_def)
  have b: "(l, Stop) \<in> set (predraw c) \<and> (l, Run) \<in> set (render c)"
    if "graphLayoutsStorage c = Some st" and "(k, l) \<in> set st"
    using that by (force simp: predraw_def render_def)
  show ?thesis using a b redraw_order [of H heap c ss ss' c' heap' tr st k l] by blast
qed

theorem stop_precedes_run_witness:
  "updatedData (sample_series 0 [link ''A'' ''B''] \<lparr> layout := Some 0 \<rparr>) = [(0, Stop)]
   \<and> redraw [''reingold-fruchterman''] [fruchterman]
        (sample_chart \<lparr> graphLayoutsStorage := Some [(''reingold-fruchterman'', 0)] \<rparr>)
        [sample_series 0 [link ''A'' ''B'']]
     = Inr ([sample_series 0 [link ''A'' ''B'' \<lparr> fromNode := Some 0, toNode := Some 1 \<rparr>]
               \<lparr> nodes := Some [new_node ''A'' \<lparr> linksFrom := [0] \<rparr>,
                                new_node ''B'' \<lparr> linksTo := [0] \<rparr>],
                 layout := Some 0 \<rparr>],
            sample_chart \<lparr> graphLayoutsStorage := Some [(''reingold-fruchterman'', 0)] \<rparr>,
            [fruchterman],
            [(0, Stop), (0, SetArea 0 0 800 600), (0, AddSeries 0), (0, AddNodes 0),
             (0, AddLinks 0), (0, Run)])"
proof -
  have l: "layout (sample_series 0 [link ''A'' ''B''] \<lparr> layout := Some 0 \<rparr>) = Some 0"
    by simp
  have st: "graphLayoutsStorage
              (sample_chart \<lparr> graphLayoutsStorage := Some [(''reingold-fruchterman'', 0)] \<rparr>)
            = Some [(''reingold-fruchterman'', 0)]"
    by simp
  have r: "redraw [''reingold-fruchterman''] [fruchterman]
        (sample_chart \<lparr> graphLayoutsStorage := Some [(''reingold-fruchterman'', 0)] \<rparr>)
        [sample_series 0 [link ''A'' ''B'']]
     = Inr ([sample_series 0 [link ''A'' ''B'' \<lparr> fromNode := Some 0, toNode := Some 1 \<rparr>]
               \<lparr> nodes := Some [new_node ''A'' \<lparr> linksFrom := [0] \<rparr>,
                                new_node ''B'' \<lparr> linksTo := [0] \<rparr>],
                 layout := Some 0 \<rparr>],
            sample_chart \<lparr> graphLayoutsStorage := Some [(''reingold-fruchterman'', 0)] \<rparr>,
            [fruchterman],
            [(0, Stop), (0, SetArea 0 0 800 600), (0, AddSeries 0), (0, AddNodes 0),
             (0, AddLinks 0), (0, Run)])"
    by (simp add: redraw_def predraw_def render_def translate_def generatePoints_def
          generatePoints_loops_def linkPoint_def linkFrom_def linkTo_def ensureNode_def
          createNode_def new_node_def empty_point_def link_def sample_series_def sample_chart_def
          deferLayout_def js_get_def object_prototype_keys_def truthy_str_def fruchterman_def
          Let_def)
  show ?thesis
    using l st r
      stop_precedes_run [of "sample_series 0 [link ''A'' ''B''] \<lparr> layout := Some 0 \<rparr>" 0
        "sample_chart \<lparr> graphLayoutsStorage := Some [(''reingold-fruchterman'', 0)] \<rparr>"
        "[(''reingold-fruchterman'', 0)]" "''reingold-fruchterman''"
        "[''reingold-fruchterman'']" "[fruchterman]" "[sample_series 0 [link ''A'' ''B'']]"]
    by simp
qed

section \<open>Properties of generatePoints\<close>

lemmas gp_defs = generatePoints_def generatePoints_loops_def linkPoint_def linkFrom_def linkTo_def
  declareNode_def ensureNode_def createNode_def new_node_def empty_point_def link_def
  sample_series_def sample_chart_def js_get_def object_prototype_keys_def truthy_str_def Let_def

lemma unlinked_id:
  assumes "unlinked p = unlinked q"
  shows "id_key p = id_key q"
proof -
  have "id_key (unlinked p) = id_key (unlinked q)" using assms by simp
  then show ?thesis by (simp add: unlinked_def)
qed

lemma grows_refl: "grows ns ns"
  by (simp add: grows_def)

lemma grows_trans: "grows a b \<Longrightarrow> grows b c \<Longrightarrow> grows a c"
  by (auto simp: grows_def)

lemma grows_append: "grows ns (ns @ ext)"
  by (simp add: grows_def nth_append)

lemma grows_linksFrom: "grows ns (ns[n := (ns ! n) \<lparr> linksFrom := x \<rparr>])"
proof -
  have "unlinked (ns[n := (ns ! n) \<lparr> linksFrom := x \<rparr>] ! m) = unlinked (ns ! m)"
    if "m < length ns" for m
    using that by (cases "m = n") (simp_all add: unlinked_def)
  then show ?thesis by (simp add: grows_def)
qed

lemma grows_linksTo: "grows ns (ns[n := (ns ! n) \<lparr> linksTo := x \<rparr>])"
proof -
  have "unlinked (ns[n := (ns ! n) \<lparr> linksTo := x \<rparr>] ! m) = unlinked (ns ! m)"
    if "m < length ns" for m
    using that by (cases "m = n") (simp_all add: unlinked_def)
  then show ?thesis by (simp add: grows_def)
qed

lemma grows_id: "grows ns ns' \<Longrightarrow> n < length ns \<Longrightarrow> id_key (ns' ! n) = id_key (ns ! n)"
  by (auto simp: grows_def intro: unlinked_id)

lemma grows_length: "grows ns ns' \<Longrightarrow> length ns \<le> length ns'"
  by (simp add: grows_def)

lemma lookup_ok_grows:
  assumes "lookup_ok ns lk" and "grows ns ns'"
  shows "lookup_ok ns' lk"
proof -
  have "n < length ns' \<and> id_key (ns' ! n) = Some k" if "(k, n) \<in> set lk" for k n
  proof -
    have n: "n < length ns" and i: "id_key (ns ! n) = Some k"
      using assms(1) that by (auto simp: lookup_ok_def)
    show ?thesis using n i grows_id [OF assms(2) n] grows_length [OF assms(2)] by simp
  qed
  then show ?thesis by (auto simp: lookup_ok_def)
qed

lemma findById_Some: "findById ns k = Some n \<Longrightarrow> n < length ns \<and> id_key (ns ! n) = Some k"
  by (induction ns arbitrary: n) (auto split: if_splits)

lemma findById_None: "findById ns k = None \<Longrightarrow> Some k \<notin> set (map id_key ns)"
  by (induction ns) (auto split: if_splits)

lemma createNode_node:
  assumes "createNode ns k = (n, ns')"
  shows "grows ns ns' \<and> n < length ns' \<and> id_key (ns' ! n) = Some k"
  using assms
  by (auto simp: createNode_def new_node_def grows_refl grows_append nth_append
        dest: findById_Some split: option.splits)

lemma createNode_distinct:
  assumes "createNode ns k = (n, ns')" and "distinct (map id_key ns)"
  shows "distinct (map id_key ns')"
  using assms
  by (auto simp: createNode_def new_node_def dest: findById_None split: option.splits)

lemma ensureNode_ok:
  assumes e: "ensureNode ns lk k = (ns', lk')" and ok: "lookup_ok ns lk"
  shows "grows ns ns' \<and> lookup_ok ns' lk'
         \<and> (k \<notin> set object_prototype_keys \<longrightarrow> (\<exists>n. js_get lk' k = Own n))
         \<and> (\<forall>n. js_get lk' k = Own n \<longrightarrow> n < length ns' \<and> id_key (ns' ! n) = Some k)"
proof (cases "js_get lk k")
  case (Own n)
  then have same: "ns' = ns" "lk' = lk" using e by (auto simp: ensureNode_def)
  have "(k, m) \<in> set lk" if "js_get lk k = Own m" for m
    using that by (auto simp: js_get_def split: option.splits if_splits dest: map_of_SomeD)
  then show ?thesis using same ok Own by (auto simp: grows_refl lookup_ok_def)
next
  case Inherited
  then have same: "ns' = ns" "lk' = lk" using e by (auto simp: ensureNode_def)
  have "k \<in> set object_prototype_keys"
    using Inherited by (auto simp: js_get_def split: option.splits if_splits)
  then show ?thesis using same ok Inherited by (simp add: grows_refl)
next
  case Undefined
  obtain n where c: "createNode ns k = (n, ns')" and lk': "lk' = lk @ [(k, n)]"
    using e Undefined by (auto simp: ensureNode_def split: prod.splits)
  from createNode_node [OF c]
  have g: "grows ns ns'" and n: "n < length ns'" and idn: "id_key (ns' ! n) = Some k" by auto
  have none: "map_of lk k = None"
    using Undefined by (auto simp: js_get_def split: option.splits)
  have get: "js_get lk' k = Own n"
    using none lk' by (simp add: js_get_def map_add_def)
  have "lookup_ok ns' lk'"
    using lookup_ok_grows [OF ok g] n idn lk' by (auto simp: lookup_ok_def)
  then show ?thesis using g get n idn by simp
qed

lemma ensureNode_distinct:
  assumes "ensureNode ns lk k = (ns', lk')" and "distinct (map id_key ns)"
  shows "distinct (map id_key ns')"
  using assms createNode_distinct
  by (auto simp: ensureNode_def split: property.splits prod.splits)

lemma ids_linksFrom: "map id_key (ns[n := (ns ! n) \<lparr> linksFrom := x \<rparr>]) = map id_key ns"
proof (rule nth_equalityI)
  show "length (map id_key (ns[n := (ns ! n) \<lparr> linksFrom := x \<rparr>])) = length (map id_key ns)"
    by simp
  show "map id_key (ns[n := (ns ! n) \<lparr> linksFrom := x \<rparr>]) ! m = map id_key ns ! m"
    if "m < length (map id_key (ns[n := (ns ! n) \<lparr> linksFrom := x \<rparr>]))" for m
    using that by (cases "m = n") simp_all
qed

lemma ids_linksTo: "map id_key (ns[n := (ns ! n) \<lparr> linksTo := x \<rparr>]) = map id_key ns"
proof (rule nth_equalityI)
  show "length (map id_key (ns[n := (ns ! n) \<lparr> linksTo := x \<rparr>])) = length (map id_key ns)"
    by simp
  show "map id_key (ns[n := (ns ! n) \<lparr> linksTo := x \<rparr>]) ! m = map id_key ns ! m"
    if "m < length (map id_key (ns[n := (ns ! n) \<lparr> linksTo := x \<rparr>]))" for m
    using that by (cases "m = n") simp_all
qed

lemma linkFrom_step:
  assumes ok: "lookup_ok ns lk" and i: "i < length ps"
    and safe: "\<forall>k. from_key (ps ! i) = Some k \<longrightarrow> k \<notin> set object_prototype_keys"
  shows "\<exists>ns' ps' lk'. linkFrom styled i (ns, ps, lk) = Inr (ns', ps', lk')
           \<and> step_ok i (ns, ps, lk) (ns', ps', lk')
           \<and> toNode (ps' ! i) = toNode (ps ! i)
           \<and> (\<forall>k. from_key (ps ! i) = Some k \<longrightarrow>
                 (\<exists>n. fromNode (ps' ! i) = Some n \<and> n < length ns' \<and> id_key (ns' ! n) = Some k))"
proof (cases "from_key (ps ! i)")
  case None
  then show ?thesis using ok by (simp add: linkFrom_def step_ok_def grows_refl)
next
  case (Some k)
  obtain ns1 lk1 where e: "ensureNode ns lk k = (ns1, lk1)" by (cases "ensureNode ns lk k")
  have k: "k \<notin> set object_prototype_keys" using safe Some by simp
  from ensureNode_ok [OF e ok] k obtain n
    where g1: "grows ns ns1" and ok1: "lookup_ok ns1 lk1" and own: "js_get lk1 k = Own n"
      and n: "n < length ns1" and idn: "id_key (ns1 ! n) = Some k"
    by blast
  define ns2 where "ns2 = ns1[n := (ns1 ! n) \<lparr> linksFrom := linksFrom (ns1 ! n) @ [i] \<rparr>]"
  define p1 where "p1 = (ps ! i) \<lparr> fromNode := Some n \<rparr>"
  define p2 where "p2 = (if styled
       then p1 \<lparr> colorIndex := (case options_colorIndex p1 of Some ci \<Rightarrow> Some ci
                                 | None \<Rightarrow> colorIndex (ns2 ! n)) \<rparr>
       else p1 \<lparr> color := (if truthy_str (options_color p1) then options_color p1
                            else color (ns2 ! n)) \<rparr>)"
  have res: "linkFrom styled i (ns, ps, lk) = Inr (ns2, ps[i := p2], lk1)"
    unfolding linkFrom_def ns2_def p1_def p2_def Let_def using Some e own by simp
  have g2: "grows ns1 ns2" unfolding ns2_def by (rule grows_linksFrom)
  have g: "grows ns ns2" using g1 g2 by (rule grows_trans)
  have ok2: "lookup_ok ns2 lk1" using ok1 g2 by (rule lookup_ok_grows)
  have len: "length ns2 = length ns1" by (simp add: ns2_def)
  have id2: "id_key (ns2 ! n) = Some k" using n idn by (simp add: ns2_def)
  have p2f: "from_key p2 = from_key (ps ! i)" "to_key p2 = to_key (ps ! i)"
    "toNode p2 = toNode (ps ! i)" "fromNode p2 = Some n"
    by (simp_all add: p2_def p1_def)
  have dist: "distinct (map id_key ns2)" if "distinct (map id_key ns)"
    using ensureNode_distinct [OF e that] by (simp add: ns2_def ids_linksFrom)
  have "step_ok i (ns, ps, lk) (ns2, ps[i := p2], lk1)"
    using g ok2 i p2f dist by (simp add: step_ok_def)
  moreover have "\<exists>m. fromNode (ps[i := p2] ! i) = Some m \<and> m < length ns2 \<and> id_key (ns2 ! m) = Some k"
    using i p2f n len id2 by simp
  ultimately show ?thesis using res Some i p2f by simp
qed

lemma linkTo_step:
  assumes ok: "lookup_ok ns lk" and i: "i < length ps"
    and safe: "\<forall>k. to_key (ps ! i) = Some k \<longrightarrow> k \<notin> set object_prototype_keys"
  shows "\<exists>ns' ps' lk'. linkTo i (ns, ps, lk) = Inr (ns', ps', lk')
           \<and> step_ok i (ns, ps, lk) (ns', ps', lk')
           \<and> fromNode (ps' ! i) = fromNode (ps ! i)
           \<and> (\<forall>k. to_key (ps ! i) = Some k \<longrightarrow>
                 (\<exists>n. toNode (ps' ! i) = Some n \<and> n < length ns' \<and> id_key (ns' ! n) = Some k))"
proof (cases "to_key (ps ! i)")
  case None
  then show ?thesis using ok by (simp add: linkTo_def step_ok_def grows_refl)
next
  case (Some k)
  obtain ns1 lk1 where e: "ensureNode ns lk k = (ns1, lk1)" by (cases "ensureNode ns lk k")
  have k: "k \<notin> set object_prototype_keys" using safe Some by simp
  from ensureNode_ok [OF e ok] k obtain n
    where g1: "grows ns ns1" and ok1: "lookup_ok ns1 lk1" and own: "js_get lk1 k = Own n"
      and n: "n < length ns1" and idn: "id_key (ns1 ! n) = Some k"
    by blast
  define ns2 where "ns2 = ns1[n := (ns1 ! n) \<lparr> linksTo := linksTo (ns1 ! n) @ [i] \<rparr>]"
  define p2 where "p2 = (ps ! i) \<lparr> toNode := Some n \<rparr>"
  have res: "linkTo i (ns, ps, lk) = Inr (ns2, ps[i := p2], lk1)"
    unfolding linkTo_def ns2_def p2_def Let_def using Some e own by simp
  have g2: "grows ns1 ns2" unfolding ns2_def by (rule grows_linksTo)
  have g: "grows ns ns2" using g1 g2 by (rule grows_trans)
  have ok2: "lookup_ok ns2 lk1" using ok1 g2 by (rule lookup_ok_grows)
  have len: "length ns2 = length ns1" by (simp add: ns2_def)
  have id2: "id_key (ns2 ! n) = Some k" using n idn by (simp add: ns2_def)
  have p2f: "from_key p2 = from_key (ps ! i)" "to_key p2 = to_key (ps ! i)"
    "fromNode p2 = fromNode (ps ! i)" "toNode p2 = Some n"
    by (simp_all add: p2_def)
  have dist: "distinct (map id_key ns2)" if "distinct (map id_key ns)"
    using ensureNode_distinct [OF e that] by (simp add: ns2_def ids_linksTo)
  have "step_ok i (ns, ps, lk) (ns2, ps[i := p2], lk1)"
    using g ok2 i p2f dist by (simp add: step_ok_def)
  moreover have "\<exists>m. toNode (ps[i := p2] ! i) = Some m \<and> m < length ns2 \<and> id_key (ns2 ! m) = Some k"
    using i p2f n len id2 by simp
  ultimately show ?thesis using res Some i p2f by simp
qed

lemma endpoints_ok_grows:
  assumes "endpoints_ok ns p" and g: "grows ns ns'"
  shows "endpoints_ok ns' p"
proof -
  have keep: "n < length ns' \<and> id_key (ns' ! n) = Some k"
    if "n < length ns" and "id_key (ns ! n) = Some k" for n k
    using that grows_id [OF g] grows_length [OF g] by simp
  show ?thesis using assms(1) keep unfolding endpoints_ok_def by blast
qed

lemma step_ok_trans:
  assumes "step_ok i a b" and "step_ok i b c"
  shows "step_ok i a c"
proof -
  obtain ns ps lk where a: "a = (ns, ps, lk)" by (cases a)
  obtain ns1 ps1 lk1 where b: "b = (ns1, ps1, lk1)" by (cases b)
  obtain ns2 ps2 lk2 where c: "c = (ns2, ps2, lk2)" by (cases c)
  have "grows ns ns2"
    using assms a b c by (auto simp: step_ok_def intro: grows_trans)
  then show ?thesis using assms a b c by (simp add: step_ok_def)
qed

lemma linkPoint_step:
  assumes ok: "lookup_ok ns lk" and i: "i < length ps" and safe: "safe_point (ps ! i)"
  shows "\<exists>ns' ps' lk'. linkPoint styled i (ns, ps, lk) = Inr (ns', ps', lk')
           \<and> step_ok i (ns, ps, lk) (ns', ps', lk')
           \<and> endpoints_ok ns' (ps' ! i)"
proof -
  have sf: "\<forall>k. from_key (ps ! i) = Some k \<longrightarrow> k \<notin> set object_prototype_keys"
    using safe by (simp add: safe_point_def)
  from linkFrom_step [OF ok i sf, of styled] obtain ns1 ps1 lk1
    where r1: "linkFrom styled i (ns, ps, lk) = Inr (ns1, ps1, lk1)"
      and s1: "step_ok i (ns, ps, lk) (ns1, ps1, lk1)"
      and f1: "\<forall>k. from_key (ps ! i) = Some k \<longrightarrow>
                 (\<exists>n. fromNode (ps1 ! i) = Some n \<and> n < length ns1 \<and> id_key (ns1 ! n) = Some k)"
    by blast
  have ok1: "lookup_ok ns1 lk1" and len1: "length ps1 = length ps"
    and keys1: "from_key (ps1 ! i) = from_key (ps ! i)" "to_key (ps1 ! i) = to_key (ps ! i)"
    using s1 by (simp_all add: step_ok_def)
  have i1: "i < length ps1" using i len1 by simp
  have st: "\<forall>k. to_key (ps1 ! i) = Some k \<longrightarrow> k \<notin> set object_prototype_keys"
    using safe keys1 by (simp add: safe_point_def)
  from linkTo_step [OF ok1 i1 st] obtain ns2 ps2 lk2
    where r2: "linkTo i (ns1, ps1, lk1) = Inr (ns2, ps2, lk2)"
      and s2: "step_ok i (ns1, ps1, lk1) (ns2, ps2, lk2)"
      and keep2: "fromNode (ps2 ! i) = fromNode (ps1 ! i)"
      and t2: "\<forall>k. to_key (ps1 ! i) = Some k \<longrightarrow>
                 (\<exists>n. toNode (ps2 ! i) = Some n \<and> n < length ns2 \<and> id_key (ns2 ! n) = Some k)"
    by blast
  have g2: "grows ns1 ns2" and len2: "length ps2 = length ps1"
    and keys2: "from_key (ps2 ! i) = from_key (ps1 ! i)" "to_key (ps2 ! i) = to_key (ps1 ! i)"
    using s2 by (simp_all add: step_ok_def)
  have f2: "\<forall>k. from_key (ps ! i) = Some k \<longrightarrow>
              (\<exists>n. fromNode (ps2 ! i) = Some n \<and> n < length ns2 \<and> id_key (ns2 ! n) = Some k)"
    using f1 keep2 grows_id [OF g2] grows_length [OF g2] by fastforce
  define p3 where "p3 = (ps2 ! i) \<lparr> name :=
      (if truthy_str (name (ps2 ! i)) then name (ps2 ! i) else id_key (ps2 ! i)) \<rparr>"
  have res: "linkPoint styled i (ns, ps, lk) = Inr (ns2, ps2[i := p3], lk2)"
    using r1 r2 by (simp add: linkPoint_def p3_def)
  have i2: "i < length ps2" using i1 len2 by simp
  have p3f: "from_key p3 = from_key (ps2 ! i)" "to_key p3 = to_key (ps2 ! i)"
    "fromNode p3 = fromNode (ps2 ! i)" "toNode p3 = toNode (ps2 ! i)"
    by (simp_all add: p3_def)
  have s3: "step_ok i (ns2, ps2, lk2) (ns2, ps2[i := p3], lk2)"
    using s2 i2 p3f by (simp add: step_ok_def grows_refl)
  have s: "step_ok i (ns, ps, lk) (ns2, ps2[i := p3], lk2)"
    using step_ok_trans [OF step_ok_trans [OF s1 s2] s3] .
  have e: "endpoints_ok ns2 (ps2[i := p3] ! i)"
    using i2 p3f f2 t2 keys1 keys2 by (simp add: endpoints_ok_def)
  show ?thesis using res s e by blast
qed

lemma forEach_linkPoint:
  assumes "lookup_ok ns lk" and "\<forall>i \<in> set js. i < length ps"
    and "\<forall>i < length ps. safe_point (ps ! i)"
  shows "\<exists>ns' ps' lk'. forEach (linkPoint styled) js (ns, ps, lk) = Inr (ns', ps', lk')
           \<and> grows ns ns' \<and> lookup_ok ns' lk' \<and> length ps' = length ps
           \<and> (\<forall>j < length ps. from_key (ps' ! j) = from_key (ps ! j)
                              \<and> to_key (ps' ! j) = to_key (ps ! j))
           \<and> (distinct (map id_key ns) \<longrightarrow> distinct (map id_key ns'))
           \<and> (\<forall>j < length ps. j \<in> set js \<or> endpoints_ok ns (ps ! j)
                 \<longrightarrow> endpoints_ok ns' (ps' ! j))"
  using assms
proof (induction js arbitrary: ns ps lk)
  case Nil
  then show ?case by (simp add: grows_refl)
next
  case (Cons i js)
  have i: "i < length ps" using Cons.prems(2) by simp
  have safe_i: "safe_point (ps ! i)" using Cons.prems(3) i by simp
  from linkPoint_step [OF Cons.prems(1) i safe_i, of styled] obtain ns1 ps1 lk1
    where r1: "linkPoint styled i (ns, ps, lk) = Inr (ns1, ps1, lk1)"
      and s1: "step_ok i (ns, ps, lk) (ns1, ps1, lk1)"
      and e1: "endpoints_ok ns1 (ps1 ! i)"
    by blast
  have g1: "grows ns ns1" and ok1: "lookup_ok ns1 lk1" and len1: "length ps1 = length ps"
    and other: "\<forall>j. j \<noteq> i \<longrightarrow> ps1 ! j = ps ! j"
    and keys_i: "from_key (ps1 ! i) = from_key (ps ! i)" "to_key (ps1 ! i) = to_key (ps ! i)"
    and d1: "distinct (map id_key ns) \<longrightarrow> distinct (map id_key ns1)"
    using s1 by (simp_all add: step_ok_def)
  have keys1: "from_key (ps1 ! j) = from_key (ps ! j) \<and> to_key (ps1 ! j) = to_key (ps ! j)" for j
    using other keys_i by (cases "j = i") simp_all
  have js1: "\<forall>j \<in> set js. j < length ps1" using Cons.prems(2) len1 by simp
  have safe1: "\<forall>j < length ps1. safe_point (ps1 ! j)"
    using Cons.prems(3) len1 keys1 by (simp add: safe_point_def)
  from Cons.IH [OF ok1 js1 safe1] obtain ns2 ps2 lk2
    where r2: "forEach (linkPoint styled) js (ns1, ps1, lk1) = Inr (ns2, ps2, lk2)"
      and g2: "grows ns1 ns2" and ok2: "lookup_ok ns2 lk2" and len2: "length ps2 = length ps1"
      and keys2: "\<forall>j < length ps1. from_key (ps2 ! j) = from_key (ps1 ! j)
                                   \<and> to_key (ps2 ! j) = to_key (ps1 ! j)"
      and d2: "distinct (map id_key ns1) \<longrightarrow> distinct (map id_key ns2)"
      and e2: "\<forall>j < length ps1. j \<in> set js \<or> endpoints_ok ns1 (ps1 ! j)
                 \<longrightarrow> endpoints_ok ns2 (ps2 ! j)"
    by blast
  have res: "forEach (linkPoint styled) (i # js) (ns, ps, lk) = Inr (ns2, ps2, lk2)"
    using r1 r2 by simp
  have g: "grows ns ns2" using g1 g2 by (rule grows_trans)
  have keys: "\<forall>j < length ps. from_key (ps2 ! j) = from_key (ps ! j)
                              \<and> to_key (ps2 ! j) = to_key (ps ! j)"
    using keys1 keys2 len1 by simp
  have e: "endpoints_ok ns2 (ps2 ! j)"
    if j: "j < length ps" and c: "j \<in> set (i # js) \<or> endpoints_ok ns (ps ! j)" for j
  proof (cases "j = i")
    case True
    then show ?thesis using e1 e2 j len1 by simp
  next
    case False
    have "j \<in> set js \<or> endpoints_ok ns1 (ps1 ! j)"
      using c False other endpoints_ok_grows [OF _ g1] by auto
    then show ?thesis using e2 j len1 by auto
  qed
  show ?case using res g ok2 len1 len2 keys d1 d2 e by auto
qed

lemma fold_declareNode:
  assumes "lookup_ok ns lk"
  shows "\<exists>ns' lk'. fold declareNode opts (ns, lk) = (ns', lk')
           \<and> grows ns ns' \<and> lookup_ok ns' lk'
           \<and> (distinct (map id_key ns) \<longrightarrow> distinct (map id_key ns'))
           \<and> (\<forall>opt \<in> set opts. node_id opt \<notin> set object_prototype_keys \<longrightarrow>
                 (\<exists>n < length ns'. id_key (ns' ! n) = Some (node_id opt)))"
  using assms
proof (induction opts arbitrary: ns lk)
  case Nil
  then show ?case by (simp add: grows_refl)
next
  case (Cons a opts)
  obtain ns1 lk1 where e: "ensureNode ns lk (node_id a) = (ns1, lk1)"
    by (cases "ensureNode ns lk (node_id a)")
  from ensureNode_ok [OF e Cons.prems]
  have g1: "grows ns ns1" and ok1: "lookup_ok ns1 lk1"
    and made: "node_id a \<notin> set object_prototype_keys \<longrightarrow>
                 (\<exists>n < length ns1. id_key (ns1 ! n) = Some (node_id a))"
    by auto
  from Cons.IH [OF ok1] obtain ns2 lk2
    where r2: "fold declareNode opts (ns1, lk1) = (ns2, lk2)"
      and g2: "grows ns1 ns2" and ok2: "lookup_ok ns2 lk2"
      and d2: "distinct (map id_key ns1) \<longrightarrow> distinct (map id_key ns2)"
      and rest: "\<forall>opt \<in> set opts. node_id opt \<notin> set object_prototype_keys \<longrightarrow>
                   (\<exists>n < length ns2. id_key (ns2 ! n) = Some (node_id opt))"
    by blast
  have res: "fold declareNode (a # opts) (ns, lk) = (ns2, lk2)"
    using e r2 by (simp add: declareNode_def)
  have first: "\<exists>n < length ns2. id_key (ns2 ! n) = Some (node_id a)"
    if "node_id a \<notin> set object_prototype_keys"
  proof -
    from made that obtain n where n: "n < length ns1" and i: "id_key (ns1 ! n) = Some (node_id a)"
      by blast
    have "n < length ns2" using n grows_length [OF g2] by simp
    moreover have "id_key (ns2 ! n) = Some (node_id a)" using grows_id [OF g2 n] i by simp
    ultimately show ?thesis by blast
  qed
  have d: "distinct (map id_key ns) \<longrightarrow> distinct (map id_key ns2)"
    using ensureNode_distinct [OF e] d2 by blast
  show ?case using res grows_trans [OF g1 g2] ok2 d first rest by auto
qed

text \<open>
  As long as no endpoint key names a member of \<open>Object.prototype\<close>,
  \<open>generatePoints\<close> raises nothing; every defined \<open>from\<close> and \<open>to\<close> is resolved
  to an existing node with that id; the nodes that existed before are still there,
  unchanged but for their link lists; node ids that were distinct stay distinct; and
  every declared node whose id is no such name exists afterwards.
\<close>

lemma generatePoints_safe_keys:
  assumes safe: "\<forall>p \<in> set (points s). safe_point p"
  shows "\<exists>ns' ps'.
           generatePoints c s = Inr (s \<lparr> nodes := Some ns', points := ps', colorCounter := 0 \<rparr>)
           \<and> length ps' = length (points s)
           \<and> (\<forall>i < length (points s).
                 from_key (ps' ! i) = from_key (points s ! i)
                 \<and> to_key (ps' ! i) = to_key (points s ! i)
                 \<and> endpoints_ok ns' (ps' ! i))
           \<and> grows (case nodes s of None \<Rightarrow> [] | Some ns \<Rightarrow> ns) ns'
           \<and> (distinct (map id_key (case nodes s of None \<Rightarrow> [] | Some ns \<Rightarrow> ns))
                 \<longrightarrow> distinct (map id_key ns'))
           \<and> (\<forall>opts opt. options_nodes s = Some opts \<longrightarrow> opt \<in> set opts
                 \<longrightarrow> node_id opt \<notin> set object_prototype_keys
                 \<longrightarrow> (\<exists>n < length ns'. id_key (ns' ! n) = Some (node_id opt)))"
proof -
  define ns0 where "ns0 = (case nodes s of None \<Rightarrow> [] | Some ns \<Rightarrow> ns)"
  define ns1 where "ns1 = map (\<lambda>node. node \<lparr> linksFrom := [], linksTo := [] \<rparr>) ns0"
  have g01: "grows ns0 ns1"
    by (simp add: grows_def ns1_def unlinked_def)
  have ids01: "map id_key ns1 = map id_key ns0"
    by (simp add: ns1_def)
  have ok1: "lookup_ok ns1 []" by (simp add: lookup_ok_def)
  have idx: "\<forall>i \<in> set [0 ..< length (points s)]. i < length (points s)" by simp
  have safe': "\<forall>i < length (points s). safe_point (points s ! i)"
    using safe by simp
  from forEach_linkPoint [OF ok1 idx safe', of "styledMode c"] obtain ns2 ps2 lk2
    where r2: "forEach (linkPoint (styledMode c)) [0 ..< length (points s)] (ns1, points s, [])
                 = Inr (ns2, ps2, lk2)"
      and g2: "grows ns1 ns2" and ok2: "lookup_ok ns2 lk2" and len2: "length ps2 = length (points s)"
      and keys2: "\<forall>j < length (points s). from_key (ps2 ! j) = from_key (points s ! j)
                                          \<and> to_key (ps2 ! j) = to_key (points s ! j)"
      and d2: "distinct (map id_key ns1) \<longrightarrow> distinct (map id_key ns2)"
      and e2: "\<forall>j < length (points s). j \<in> set [0 ..< length (points s)]
                    \<or> endpoints_ok ns1 (points s ! j) \<longrightarrow> endpoints_ok ns2 (ps2 ! j)"
    by blast
  have e2': "\<forall>j < length (points s). endpoints_ok ns2 (ps2 ! j)"
    using e2 by simp
  show ?thesis
  proof (cases "options_nodes s")
    case None
    have res: "generatePoints c s = Inr (s \<lparr> nodes := Some ns2, points := ps2, colorCounter := 0 \<rparr>)"
      using r2 None unfolding generatePoints_def generatePoints_loops_def Let_def ns1_def ns0_def
      by simp
    have d: "distinct (map id_key ns0) \<longrightarrow> distinct (map id_key ns2)"
      using d2 ids01 by simp
    show ?thesis
      unfolding ns0_def [symmetric]
      by (intro exI [of _ ns2] exI [of _ ps2])
         (use res len2 keys2 e2' grows_trans [OF g01 g2] d None in simp)
  next
    case (Some opts)
    from fold_declareNode [OF ok2, of opts] obtain ns3 lk3
      where r3: "fold declareNode opts (ns2, lk2) = (ns3, lk3)"
        and g3: "grows ns2 ns3"
        and d3: "distinct (map id_key ns2) \<longrightarrow> distinct (map id_key ns3)"
        and made: "\<forall>opt \<in> set opts. node_id opt \<notin> set object_prototype_keys \<longrightarrow>
                     (\<exists>n < length ns3. id_key (ns3 ! n) = Some (node_id opt))"
      by blast
    have res: "generatePoints c s = Inr (s \<lparr> nodes := Some ns3, points := ps2, colorCounter := 0 \<rparr>)"
      using r2 r3 Some unfolding generatePoints_def generatePoints_loops_def Let_def ns1_def ns0_def
      by simp
    have e3: "\<forall>j < length (points s). endpoints_ok ns3 (ps2 ! j)"
      using e2' endpoints_ok_grows [OF _ g3] by blast
    have g: "grows ns0 ns3" using grows_trans [OF grows_trans [OF g01 g2] g3] .
    have d: "distinct (map id_key ns0) \<longrightarrow> distinct (map id_key ns3)"
      using d2 d3 ids01 by simp
    show ?thesis
      unfolding ns0_def [symmetric]
      by (intro exI [of _ ns3] exI [of _ ps2])
         (use res len2 keys2 e3 g d made Some in simp)
  qed
qed

text \<open>
  C4 asks that an endpoint key naming no node yet makes \<open>generatePoints\<close> create the
  node, so that every defined \<open>from\<close> and \<open>to\<close> ends up with \<open>fromNode\<close> and
  \<open>toNode\<close> set and no error is raised. The code does so for the link from \<open>A\<close> to
  \<open>B\<close>, but not for a key that names a member of \<open>Object.prototype\<close>: the read
  \<open>nodeLookup['constructor']\<close> is truthy, no node is created, and
  \<open>nodeLookup['constructor'].linksFrom.push(point)\<close> raises a \<open>TypeError\<close>.
\<close>

theorem generatePoints_inherited_endpoint:
  "generatePoints sample_chart (sample_series 0 [link ''constructor'' ''B'']) = Inl TypeError
   \<and> generatePoints sample_chart (sample_series 0 [link ''A'' ''toString'']) = Inl TypeError
   \<and> generatePoints sample_chart (sample_series 0 [link ''A'' ''B''])
     = Inr (sample_series 0 [link ''A'' ''B'' \<lparr> fromNode := Some 0, toNode := Some 1 \<rparr>]
              \<lparr> nodes := Some [new_node ''A'' \<lparr> linksFrom := [0] \<rparr>,
                               new_node ''B'' \<lparr> linksTo := [0] \<rparr>] \<rparr>)"
  by (simp add: gp_defs)

text \<open>
  C3 asks that every key occurring in the link data or in the \<open>nodes\<close> option gets
  exactly one node. For the declared nodes \<open>constructor\<close> and \<open>A\<close> the code creates
  the node \<open>A\<close> and no node for \<open>constructor\<close>: \<open>!nodeLookup['constructor']\<close> is
  false, since the read yields the member inherited from \<open>Object.prototype\<close>. For
  the key \<open>A\<close>, which occurs in two links and in the \<open>nodes\<close> option, it creates
  one node.
\<close>

theorem generatePoints_inherited_declaration:
  "generatePoints sample_chart
     (sample_series 0 []
        \<lparr> options_nodes := Some [\<lparr> node_id = ''constructor'' \<rparr>, \<lparr> node_id = ''A'' \<rparr>] \<rparr>)
   = Inr (sample_series 0 []
            \<lparr> options_nodes := Some [\<lparr> node_id = ''constructor'' \<rparr>, \<lparr> node_id = ''A'' \<rparr>],
              nodes := Some [new_node ''A''] \<rparr>)
   \<and> generatePoints sample_chart
       (sample_series 0 [link ''A'' ''B'', link ''A'' ''C'']
          \<lparr> options_nodes := Some [\<lparr> node_id = ''A'' \<rparr>] \<rparr>)
   = Inr (sample_series 0 [link ''A'' ''B'' \<lparr> fromNode := Some 0, toNode := Some 1 \<rparr>,
                           link ''A'' ''C'' \<lparr> fromNode := Some 0, toNode := Some 2 \<rparr>]
            \<lparr> options_nodes := Some [\<lparr> node_id = ''A'' \<rparr>],
              nodes := Some [new_node ''A'' \<lparr> linksFrom := [0, 1] \<rparr>,
                             new_node ''B'' \<lparr> linksTo := [0] \<rparr>,
                             new_node ''C'' \<lparr> linksTo := [1] \<rparr>] \<rparr>)"
  by (simp add: gp_defs)

end
